theory Spec2Isabelle
  imports Complex_Main
begin

section \<open>Wildfire spread simulator: data model\<close>

text \<open>
  The simulator is TypeScript. Its \<^verbatim>\<open>number\<close> values are IEEE doubles; here a
  quantity that the program only ever uses as a count or an array index (grid
  coordinates, grid dimensions, tile indices, pixel channels, the burn duration) is an
  \<^typ>\<open>int\<close>, and every other number is a \<^typ>\<open>real\<close>, so arithmetic is exact:
  rounding errors, NaN and infinities of the doubles are outside this model, except
  where the rounding is made explicit (section Rounding).
  \<^verbatim>\<open>Math.random()\<close> is modelled by an explicit source of draws that every function
  which calls it takes and returns. Reading \<^verbatim>\<open>undefined.field\<close> raises a TypeError in
  JavaScript; such a raise is the value \<open>Inl TypeError\<close>.
\<close>

datatype TerrainType = FOREST | GRASS | URBAN | WATER | FARMLAND

datatype BurnState = UNBURNED | BURNING | BURNED

record SimulationParams =
  gridCellSize :: real
  windSpeed :: real
  windDirection :: real
  temperature :: real
  humidity :: real
  rainLikelihood :: real

text \<open>
  The fields \<^verbatim>\<open>x\<close> and \<^verbatim>\<open>y\<close> of a cell are named \<open>cellX\<close> and \<open>cellY\<close>.
  A cell has its own \<open>humidity\<close> and \<open>temperature\<close>; the fields of the parameters
  are written \<open>SimulationParams.humidity\<close> and \<open>SimulationParams.temperature\<close>.
\<close>

record Cell =
  terrain :: TerrainType
  burnState :: BurnState
  cellX :: int
  cellY :: int
  windX :: real
  windY :: real
  humidity :: real
  temperature :: real
  burnIntensity :: real
  burnDuration :: int

record BoundingBox =
  north :: real
  south :: real
  east :: real
  west :: real

record GridData =
  cells :: "Cell list list"
  width :: int
  height :: int
  bounds :: BoundingBox
  cellSize :: real

datatype error = TypeError

section \<open>JavaScript arithmetic used by the program\<close>

text \<open>\<^verbatim>\<open>Math.round\<close>: the nearest integer, a tie going up.\<close>

definition Math_round :: "real \<Rightarrow> int" where
  "Math_round v = \<lfloor>v + 1 / 2\<rfloor>"

text \<open>
  The remainder operator \<^verbatim>\<open>a % b\<close>: the quotient is truncated towards zero, so the
  result has the sign of \<open>a\<close>. The program only divides by the constants 6 and 360.
\<close>

definition js_trunc :: "real \<Rightarrow> int" where
  "js_trunc q = (if 0 \<le> q then \<lfloor>q\<rfloor> else \<lceil>q\<rceil>)"

definition js_rem :: "real \<Rightarrow> real \<Rightarrow> real" where
  "js_rem a b = a - b * of_int (js_trunc (a / b))"

text \<open>\<^verbatim>\<open>Math.atan2(y, x)\<close> on exact reals (no signed zeros).\<close>

definition Math_atan2 :: "real \<Rightarrow> real \<Rightarrow> real" where
  "Math_atan2 y x =
     (if 0 < x then arctan (y / x)
      else if x < 0 then (if 0 \<le> y then arctan (y / x) + pi else arctan (y / x) - pi)
      else if 0 < y then pi / 2
      else if y < 0 then - (pi / 2)
      else 0)"

text \<open>
  An array read \<^verbatim>\<open>xs[i]\<close> with a non-negative integer index: \<^verbatim>\<open>undefined\<close>
  (here \<open>None\<close>) past the end.
\<close>

definition js_index :: "'a list \<Rightarrow> nat \<Rightarrow> 'a option" where
  "js_index xs i = (if i < length xs then Some (xs ! i) else None)"

section \<open>Terrain classifier\<close>

text \<open>\<^verbatim>\<open>rgbToHsv\<close> returns the object \<^verbatim>\<open>{h, s, v}\<close>, here the triple \<open>(h, s, v)\<close>.\<close>

definition rgbToHsv :: "real \<Rightarrow> real \<Rightarrow> real \<Rightarrow> int \<times> int \<times> int" where
  "rgbToHsv r0 g0 b0 =
     (let r = r0 / 255; g = g0 / 255; b = b0 / 255;
          mx = max (max r g) b;
          mn = min (min r g) b;
          diff = mx - mn;
          h0 = (if diff \<noteq> 0
                then (if mx = r then js_rem ((g - b) / diff) 6
                      else if mx = g then (b - r) / diff + 2
                      else (r - g) / diff + 4)
                else 0);
          h1 = Math_round (60 * h0);
          h = (if h1 < 0 then h1 + 360 else h1);
          s = (if mx = 0 then 0 else Math_round (diff / mx * 100));
          v = Math_round (mx * 100)
      in (h, s, v))"

definition classifyTerrain :: "real \<Rightarrow> real \<Rightarrow> real \<Rightarrow> TerrainType" where
  "classifyTerrain r g b =
     (case rgbToHsv r g b of (h, s, v) \<Rightarrow>
        if h \<ge> 180 \<and> h \<le> 240 \<and> s > 30 \<and> v > 20 then WATER
        else if h \<ge> 80 \<and> h \<le> 160 \<and> s > 30 \<and> v < 60 then FOREST
        else if h \<ge> 60 \<and> h \<le> 120 \<and> s > 20 \<and> v \<ge> 40 then GRASS
        else if s < 20 \<and> v > 30 \<and> v < 80 then URBAN
        else if (h \<ge> 30 \<and> h \<le> 60) \<or> (h \<ge> 0 \<and> h \<le> 30) then FARMLAND
        else GRASS)"

text \<open>
  The \<^verbatim>\<open>default\<close> branch of the switch (0.3) is not reachable for a value of the
  enumeration.
\<close>

fun getFlammability :: "TerrainType \<Rightarrow> real" where
  "getFlammability FOREST = 0.8"
| "getFlammability GRASS = 0.6"
| "getFlammability FARMLAND = 0.4"
| "getFlammability URBAN = 0.2"
| "getFlammability WATER = 0.0"

section \<open>Tile coordinates\<close>

text \<open>Both functions return an object of two fields, here a pair: \<open>(x, y)\<close> and \<open>(lat, lon)\<close>.\<close>

definition latLonToTile :: "real \<Rightarrow> real \<Rightarrow> nat \<Rightarrow> int \<times> int" where
  "latLonToTile lat lon zoom =
     (let latRad = lat * pi / 180;
          n = (2::real) ^ zoom;
          x = \<lfloor>(lon + 180) / 360 * n\<rfloor>;
          y = \<lfloor>(1 - arsinh (tan latRad) / pi) / 2 * n\<rfloor>
      in (x, y))"

definition tileToLatLon :: "int \<Rightarrow> int \<Rightarrow> nat \<Rightarrow> real \<times> real" where
  "tileToLatLon x y zoom =
     (let n = (2::real) ^ zoom;
          lon = of_int x / n * 360 - 180;
          latRad = arctan (sinh (pi * (1 - 2 * of_int y / n)));
          lat = latRad * 180 / pi
      in (lat, lon))"

section \<open>Sampling the terrain of a grid cell\<close>

text \<open>
  A decoded tile image: its size, and what \<^verbatim>\<open>ctx.getImageData(sx, sy, 1, 1).data\<close>
  holds once the image is drawn on the canvas, as \<open>(r, g, b)\<close>; \<open>None\<close> when the call
  throws (the program skips such a sample).
\<close>

record HTMLImage =
  imgWidth :: int
  imgHeight :: int
  getImageData :: "int \<Rightarrow> int \<Rightarrow> (int \<times> int \<times> int) option"

record Tile =
  tileX :: int
  tileY :: int
  tileZ :: int
  image :: HTMLImage

text \<open>The two nested loops over \<^verbatim>\<open>dy\<close> and \<^verbatim>\<open>dx\<close> from \<open>-3\<close> to \<open>3\<close>.\<close>

definition collectSamples :: "HTMLImage \<Rightarrow> int \<Rightarrow> int \<Rightarrow> (int \<times> int \<times> int) list" where
  "collectSamples img pixelX pixelY =
     List.map_filter
       (\<lambda>(dy, dx).
          getImageData img
            (max 0 (min (imgWidth img - 1) (pixelX + dx)))
            (max 0 (min (imgHeight img - 1) (pixelY + dy))))
       (concat (map (\<lambda>dy. map (\<lambda>dx. (dy, dx)) [-3..3]) [-3..3]))"

definition sampleTerrainAtLocation :: "real \<Rightarrow> real \<Rightarrow> Tile list \<Rightarrow> TerrainType" where
  "sampleTerrainAtLocation lat lon tiles =
     (let tileCoord = latLonToTile lat lon 16 in
      case find (\<lambda>t. tileX t = fst tileCoord \<and> tileY t = snd tileCoord) tiles of
        None \<Rightarrow> classifyTerrain 120 150 80
      | Some tile \<Rightarrow>
          (let tileTopLeft = tileToLatLon (tileX tile) (tileY tile) 16;
               tileBottomRight = tileToLatLon (tileX tile + 1) (tileY tile + 1) 16;
               pixelX = \<lfloor>(lon - snd tileTopLeft) / (snd tileBottomRight - snd tileTopLeft)
                          * of_int (imgWidth (image tile))\<rfloor>;
               pixelY = \<lfloor>(fst tileTopLeft - lat) / (fst tileTopLeft - fst tileBottomRight)
                          * of_int (imgHeight (image tile))\<rfloor>;
               samples = collectSamples (image tile) pixelX pixelY
           in if samples = [] then classifyTerrain 120 150 80
              else
                (let len = real (length samples);
                     avgR = (\<Sum>(r, g, b) \<leftarrow> samples. real_of_int r) / len;
                     avgG = (\<Sum>(r, g, b) \<leftarrow> samples. real_of_int g) / len;
                     avgB = (\<Sum>(r, g, b) \<leftarrow> samples. real_of_int b) / len
                 in classifyTerrain (of_int (Math_round avgR)) (of_int (Math_round avgG))
                      (of_int (Math_round avgB)))))"

section \<open>The source of random draws\<close>

text \<open>
  The draws that the coming calls of \<^verbatim>\<open>Math.random()\<close> return, in order. A call
  takes the first and leaves the rest.
\<close>

type_synonym rng = "nat \<Rightarrow> real"

definition Math_random :: "rng \<Rightarrow> real \<times> rng" where
  "Math_random r = (r 0, \<lambda>i. r (Suc i))"

section \<open>The cellular automaton\<close>

text \<open>
  \<^verbatim>\<open>getNeighbors\<close>: the loop \<^verbatim>\<open>for (const [dx, dy] of directions)\<close>. The bounds
  test reads \<^verbatim>\<open>grid[0].length\<close> only after \<^verbatim>\<open>nx >= 0\<close> held (\<^verbatim>\<open>&&\<close> stops at the
  first false operand), and raises when the grid has no row. A row shorter than the
  first one gives \<^verbatim>\<open>undefined\<close> neighbours.
\<close>

definition directions :: "(int \<times> int) list" where
  "directions = [(-1, -1), (-1, 0), (-1, 1), (0, -1), (0, 1), (1, -1), (1, 0), (1, 1)]"

fun getNeighbors_loop ::
  "Cell list list \<Rightarrow> int \<Rightarrow> int \<Rightarrow> (int \<times> int) list \<Rightarrow> Cell option list
     \<Rightarrow> error + Cell option list" where
  "getNeighbors_loop grid x y [] neighbors = Inr neighbors"
| "getNeighbors_loop grid x y ((dx, dy) # ds) neighbors =
     (let nx = x + dx; ny = y + dy in
      if nx \<ge> 0 then
        (case grid of
           [] \<Rightarrow> Inl TypeError
         | row0 # _ \<Rightarrow>
             if nx < int (length row0) \<and> ny \<ge> 0 \<and> ny < int (length grid)
             then getNeighbors_loop grid x y ds
                    (neighbors @ [js_index (grid ! nat ny) (nat nx)])
             else getNeighbors_loop grid x y ds neighbors)
      else getNeighbors_loop grid x y ds neighbors)"

definition getNeighbors :: "Cell list list \<Rightarrow> int \<Rightarrow> int \<Rightarrow> error + Cell option list" where
  "getNeighbors grid x y = getNeighbors_loop grid x y directions []"

definition calculateSpreadProbability ::
  "Cell \<Rightarrow> Cell \<Rightarrow> SimulationParams \<Rightarrow> real \<Rightarrow> real" where
  "calculateSpreadProbability fromCell toCell params windEffect =
     (let probability = getFlammability (terrain toCell);
          temperatureEffect = max 0 ((SimulationParams.temperature params - 20) / 50);
          humidityEffect = max 0 ((100 - SimulationParams.humidity params) / 100);
          rainEffect = max 0 ((100 - rainLikelihood params) / 100);
          probability = probability * (0.5 + 0.5 * temperatureEffect);
          probability = probability * humidityEffect;
          probability = probability * rainEffect;
          probability = probability * (0.8 + 0.4 * windEffect);
          probability = probability * (0.5 + 0.5 * burnIntensity fromCell)
      in min 1.0 probability)"

definition calculateWindEffect :: "real \<Rightarrow> real \<Rightarrow> real \<Rightarrow> real \<Rightarrow> real \<Rightarrow> real" where
  "calculateWindEffect fromX fromY toX toY windDir =
     (let fireDirection = Math_atan2 (toY - fromY) (toX - fromX) * 180 / pi;
          normalizedFireDir = js_rem (fireDirection + 360) 360;
          normalizedWindDir = js_rem (windDir + 360) 360;
          angleDiff = \<bar>normalizedWindDir - normalizedFireDir\<bar>;
          effectiveAngle = min angleDiff (360 - angleDiff)
      in 0.3 + 0.7 * cos (effectiveAngle * pi / 180))"

text \<open>
  The loop \<^verbatim>\<open>for (const neighbor of neighbors)\<close> of the \<^verbatim>\<open>UNBURNED\<close> case. Its
  result is \<^verbatim>\<open>newCell\<close>, a copy of \<open>cell\<close> until the loop ignites it and breaks.
\<close>

fun spreadFromNeighbors ::
  "Cell \<Rightarrow> Cell option list \<Rightarrow> SimulationParams \<Rightarrow> rng \<Rightarrow> error + Cell \<times> rng" where
  "spreadFromNeighbors cell [] params r = Inr (cell, r)"
| "spreadFromNeighbors cell (None # ns) params r = Inl TypeError"
| "spreadFromNeighbors cell (Some neighbor # ns) params r =
     (if burnState neighbor = BURNING then
        (let windEffect =
               calculateWindEffect (of_int (cellX neighbor)) (of_int (cellY neighbor))
                 (of_int (cellX cell)) (of_int (cellY cell)) (windDirection params);
             spreadProb = calculateSpreadProbability neighbor cell params windEffect
         in case Math_random r of (u, r1) \<Rightarrow>
              if u < spreadProb * 0.1 then
                (case Math_random r1 of (v, r2) \<Rightarrow>
                   Inr (cell\<lparr>burnState := BURNING, burnIntensity := v * 0.5 + 0.5,
                              burnDuration := 0\<rparr>, r2))
              else spreadFromNeighbors cell ns params r1)
      else spreadFromNeighbors cell ns params r)"

definition updateCellBurnState ::
  "Cell \<Rightarrow> Cell option list \<Rightarrow> SimulationParams \<Rightarrow> rng \<Rightarrow> error + Cell \<times> rng" where
  "updateCellBurnState cell neighbors params r =
     (case burnState cell of
        UNBURNED \<Rightarrow> spreadFromNeighbors cell neighbors params r
      | BURNING \<Rightarrow>
          (let newCell = cell\<lparr>burnDuration := burnDuration cell + 1\<rparr>;
               newCell = newCell\<lparr>burnIntensity := max 0 (burnIntensity cell - 0.05)\<rparr>;
               burnoutDuration = getFlammability (terrain cell) * 20 + 10
           in if of_int (burnDuration newCell) \<ge> burnoutDuration \<or> burnIntensity newCell \<le> 0.1
              then Inr (newCell\<lparr>burnState := BURNED, burnIntensity := 0\<rparr>, r)
              else Inr (newCell, r))
      | BURNED \<Rightarrow> Inr (cell, r))"

text \<open>A \<^verbatim>\<open>for\<close> loop whose body may raise: the first error ends it.\<close>

fun foldE :: "('a \<Rightarrow> 's \<Rightarrow> error + 's) \<Rightarrow> 'a list \<Rightarrow> 's \<Rightarrow> error + 's" where
  "foldE f [] s = Inr s"
| "foldE f (a # as) s = (case f a s of Inl e \<Rightarrow> Inl e | Inr s' \<Rightarrow> foldE f as s')"

text \<open>
  The body of the two loops of \<^verbatim>\<open>stepSimulation\<close>, on the state \<open>(newGrid, r)\<close>.
  \<^verbatim>\<open>gridData.cells[y][x]\<close> raises when row \<open>y\<close> does not exist and is \<^verbatim>\<open>undefined\<close>
  when the row is too short; \<^verbatim>\<open>updateCellBurnState\<close> raises on an \<^verbatim>\<open>undefined\<close> cell
  (\<^verbatim>\<open>cell.burnState\<close>). The write \<^verbatim>\<open>newGrid[y][x] = ...\<close> is then within the copy.
\<close>

definition stepCell ::
  "GridData \<Rightarrow> SimulationParams \<Rightarrow> nat \<Rightarrow> nat \<Rightarrow> Cell list list \<times> rng
     \<Rightarrow> error + Cell list list \<times> rng" where
  "stepCell gridData params y x s =
     (case s of (newGrid, r) \<Rightarrow>
        (case js_index (cells gridData) y of
           None \<Rightarrow> Inl TypeError
         | Some row \<Rightarrow>
             (case getNeighbors (cells gridData) (int x) (int y) of
                Inl e \<Rightarrow> Inl e
              | Inr neighbors \<Rightarrow>
                  (case js_index row x of
                     None \<Rightarrow> Inl TypeError
                   | Some cell \<Rightarrow>
                       (case updateCellBurnState cell neighbors params r of
                          Inl e \<Rightarrow> Inl e
                        | Inr (cell', r') \<Rightarrow>
                            Inr (newGrid[y := (newGrid ! y)[x := cell']], r'))))))"

definition stepSimulation ::
  "GridData \<Rightarrow> SimulationParams \<Rightarrow> rng \<Rightarrow> error + GridData \<times> rng" where
  "stepSimulation gridData params r =
     (let newGrid = map (\<lambda>row. row) (cells gridData) in
      case foldE (\<lambda>y. foldE (\<lambda>x. stepCell gridData params y x) [0..<nat (width gridData)])
             [0..<nat (height gridData)] (newGrid, r) of
        Inl e \<Rightarrow> Inl e
      | Inr (newGrid', r') \<Rightarrow> Inr (gridData\<lparr>cells := newGrid'\<rparr>, r'))"

text \<open>
  \<^verbatim>\<open>igniteCell\<close>, for integer coordinates. \<^verbatim>\<open>newGrid[y][x]\<close> raises when row \<open>y\<close>
  does not exist, and \<^verbatim>\<open>cell.burnState\<close> raises when the row is too short.
\<close>

definition igniteCell :: "GridData \<Rightarrow> int \<Rightarrow> int \<Rightarrow> error + GridData" where
  "igniteCell gridData x y =
     (if x \<ge> 0 \<and> x < width gridData \<and> y \<ge> 0 \<and> y < height gridData then
        (let newGrid = map (\<lambda>row. row) (cells gridData) in
         case js_index newGrid (nat y) of
           None \<Rightarrow> Inl TypeError
         | Some row \<Rightarrow>
             (case js_index row (nat x) of
                None \<Rightarrow> Inl TypeError
              | Some cell \<Rightarrow>
                  if burnState cell = UNBURNED \<and> getFlammability (terrain cell) > 0
                  then Inr (gridData\<lparr>cells :=
                         newGrid[nat y := row[nat x :=
                           cell\<lparr>burnState := BURNING, burnIntensity := 1.0,
                                burnDuration := 0\<rparr>]]\<rparr>)
                  else Inr (gridData\<lparr>cells := newGrid\<rparr>)))
      else Inr gridData)"

section \<open>Grids and runs\<close>

text \<open>
  The shape every grid of the program has: \<open>height\<close> rows of \<open>width\<close> cells each.
\<close>

definition wf_grid :: "GridData \<Rightarrow> bool" where
  "wf_grid g \<longleftrightarrow>
     int (length (cells g)) = height g \<and> list_all (\<lambda>row. int (length row) = width g) (cells g)"

text \<open>
  The caller keeps one grid and replaces it by the result of a tick or of an ignition.
\<close>

datatype operation = Tick SimulationParams | Ignite int int

fun runOps :: "GridData \<Rightarrow> operation list \<Rightarrow> rng \<Rightarrow> error + GridData \<times> rng" where
  "runOps g [] r = Inr (g, r)"
| "runOps g (Tick params # ops) r =
     (case stepSimulation g params r of Inl e \<Rightarrow> Inl e | Inr (g', r') \<Rightarrow> runOps g' ops r')"
| "runOps g (Ignite x y # ops) r =
     (case igniteCell g x y of Inl e \<Rightarrow> Inl e | Inr g' \<Rightarrow> runOps g' ops r)"

definition burnRank :: "BurnState \<Rightarrow> nat" where
  "burnRank b = (case b of UNBURNED \<Rightarrow> 0 | BURNING \<Rightarrow> 1 | BURNED \<Rightarrow> 2)"

text \<open>A cell's burn state has not moved backwards, and a Burned cell is as it was.\<close>

definition cellForward :: "Cell \<Rightarrow> Cell \<Rightarrow> bool" where
  "cellForward c c' \<longleftrightarrow>
     burnRank (burnState c) \<le> burnRank (burnState c') \<and> (burnState c = BURNED \<longrightarrow> c' = c)"

text \<open>
  Where the program's grids come from. \<^verbatim>\<open>processAreaToGrid\<close> builds the cells of a
  selected area, all Unburned; the model starts once the canvas context exists and
  the tiles are loaded (\<open>validTiles\<close>). The cell size is positive: with 0 the
  program's grid dimensions are infinite, which has no counterpart here.
  \<^verbatim>\<open>processSelectedArea\<close> makes the grid of these cells, and
  \<^verbatim>\<open>handleResetSimulation\<close> puts every cell of the current grid back to Unburned.
  Apart from these two, the program only ever replaces its grid by the result of a
  tick or of an ignition.
\<close>

definition processAreaToGrid ::
  "BoundingBox \<Rightarrow> real \<Rightarrow> real \<Rightarrow> real \<Rightarrow> real \<Rightarrow> real \<Rightarrow> Tile list
     \<Rightarrow> Cell list list \<times> int \<times> int" where
  "processAreaToGrid b cellSz wSpeed wDirection temp humid validTiles =
     (let latDiff = north b - south b;
          lonDiff = east b - west b;
          latKm = latDiff * 111;
          lonKm = lonDiff * 111 * cos ((north b + south b) / 2 * pi / 180);
          gridWidth = \<lceil>lonKm / cellSz\<rceil>;
          gridHeight = \<lceil>latKm / cellSz\<rceil>
      in (map (\<lambda>y. map (\<lambda>x.
             (let cellLat = south b + ((real y + 0.5) / of_int gridHeight) * latDiff;
                  cellLon = west b + ((real x + 0.5) / of_int gridWidth) * lonDiff;
                  terrainType = sampleTerrainAtLocation cellLat cellLon validTiles
              in \<lparr>terrain = terrainType, burnState = UNBURNED, cellX = int x, cellY = int y,
                   windX = wSpeed * cos (wDirection * pi / 180),
                   windY = wSpeed * sin (wDirection * pi / 180),
                   humidity = humid, temperature = temp,
                   burnIntensity = 0, burnDuration = 0\<rparr>))
             [0..<nat gridWidth]) [0..<nat gridHeight],
          gridWidth, gridHeight))"

definition processSelectedArea :: "BoundingBox \<Rightarrow> SimulationParams \<Rightarrow> Tile list \<Rightarrow> GridData" where
  "processSelectedArea b simulationParams validTiles =
     (case processAreaToGrid b (gridCellSize simulationParams) (windSpeed simulationParams)
             (windDirection simulationParams) (SimulationParams.temperature simulationParams)
             (SimulationParams.humidity simulationParams) validTiles of
        (cs, w, h) \<Rightarrow>
          \<lparr>cells = cs, width = w, height = h, bounds = b,
           cellSize = gridCellSize simulationParams\<rparr>)"

definition handleResetSimulation :: "GridData \<Rightarrow> GridData" where
  "handleResetSimulation gridData =
     gridData\<lparr>cells :=
       map (map (\<lambda>cell. cell\<lparr>burnState := UNBURNED, burnIntensity := 0, burnDuration := 0\<rparr>))
         (cells gridData)\<rparr>"

text \<open>What can happen to the grid once it is made: a tick, an ignition, a reset.\<close>

datatype event = Op operation | Reset

fun runEvents :: "GridData \<Rightarrow> event list \<Rightarrow> rng \<Rightarrow> error + GridData \<times> rng" where
  "runEvents g [] r = Inr (g, r)"
| "runEvents g (Op op # es) r =
     (case runOps g [op] r of Inl e \<Rightarrow> Inl e | Inr (g', r') \<Rightarrow> runEvents g' es r')"
| "runEvents g (Reset # es) r = runEvents (handleResetSimulation g) es r"

section \<open>The transition of one cell, read off the grid before the tick\<close>

text \<open>
  What the tick computes for the cell at row \<open>y\<close>, column \<open>x\<close> of the grid \<open>g\<close>:
  \<^verbatim>\<open>updateCellBurnState\<close> of that cell of \<open>g\<close> and of its neighbours in \<open>g\<close>.
\<close>

definition perCell ::
  "GridData \<Rightarrow> SimulationParams \<Rightarrow> nat \<Rightarrow> nat \<Rightarrow> rng \<Rightarrow> error + Cell \<times> rng" where
  "perCell g params y x r =
     (case getNeighbors (cells g) (int x) (int y) of
        Inl e \<Rightarrow> Inl e
      | Inr neighbors \<Rightarrow> updateCellBurnState (cells g ! y ! x) neighbors params r)"

text \<open>The draws that a transition leaves; all of them when it raises.\<close>

definition drawsLeft :: "error + Cell \<times> rng \<Rightarrow> rng \<Rightarrow> rng" where
  "drawsLeft res r = (case res of Inl e \<Rightarrow> r | Inr (c, r') \<Rightarrow> r')"

fun rngRow :: "GridData \<Rightarrow> SimulationParams \<Rightarrow> nat \<Rightarrow> nat \<Rightarrow> rng \<Rightarrow> rng" where
  "rngRow g params y 0 r = r"
| "rngRow g params y (Suc x) r =
     drawsLeft (perCell g params y x (rngRow g params y x r)) (rngRow g params y x r)"

fun rngRows :: "GridData \<Rightarrow> SimulationParams \<Rightarrow> nat \<Rightarrow> rng \<Rightarrow> rng" where
  "rngRows g params 0 r = r"
| "rngRows g params (Suc y) r = rngRow g params y (nat (width g)) (rngRows g params y r)"

text \<open>
  The draws left when the tick reaches the cell at row \<open>y\<close>, column \<open>x\<close>: those that
  the cells of the rows above (\<open>rngRows\<close>), and then the cells to the left in its row
  (\<open>rngRow\<close>), have not taken.
\<close>

definition rngBefore :: "GridData \<Rightarrow> SimulationParams \<Rightarrow> rng \<Rightarrow> nat \<Rightarrow> nat \<Rightarrow> rng" where
  "rngBefore g params r y x = rngRow g params y x (rngRows g params y r)"

text \<open>The offset \<open>d = (dx, dy)\<close> from column \<open>x\<close>, row \<open>y\<close> stays within \<open>w\<close> columns and \<open>h\<close> rows.\<close>

definition inGrid :: "nat \<Rightarrow> nat \<Rightarrow> int \<Rightarrow> int \<Rightarrow> int \<times> int \<Rightarrow> bool" where
  "inGrid w h x y d =
     (case d of (dx, dy) \<Rightarrow> 0 \<le> x + dx \<and> x + dx < int w \<and> 0 \<le> y + dy \<and> y + dy < int h)"

section \<open>Auxiliary notions for the statements\<close>

text \<open>The cell that the loop of the \<^verbatim>\<open>UNBURNED\<close> case leaves when it ignites with intensity \<open>v\<close>.\<close>

definition ignited :: "Cell \<Rightarrow> real \<Rightarrow> Cell" where
  "ignited c v = c\<lparr>burnState := BURNING, burnIntensity := v, burnDuration := 0\<rparr>"

text \<open>The \<^verbatim>\<open>BURNING\<close> case of \<^verbatim>\<open>updateCellBurnState\<close>, as one value.\<close>

definition burnStep :: "Cell \<Rightarrow> Cell" where
  "burnStep c =
     (if of_int (burnDuration c + 1) \<ge> getFlammability (terrain c) * 20 + 10
         \<or> max 0 (burnIntensity c - 0.05) \<le> 0.1
      then c\<lparr>burnDuration := burnDuration c + 1, burnIntensity := 0, burnState := BURNED\<rparr>
      else c\<lparr>burnDuration := burnDuration c + 1,
             burnIntensity := max 0 (burnIntensity c - 0.05)\<rparr>)"

text \<open>The fields that a tick never writes.\<close>

definition sameFrame :: "Cell \<Rightarrow> Cell \<Rightarrow> bool" where
  "sameFrame c c' \<longleftrightarrow>
     terrain c' = terrain c \<and> cellX c' = cellX c \<and> cellY c' = cellY c
     \<and> windX c' = windX c \<and> windY c' = windY c
     \<and> humidity c' = humidity c \<and> temperature c' = temperature c"

text \<open>Every cell of the grid is Water.\<close>

definition allWater :: "GridData \<Rightarrow> bool" where
  "allWater g = list_all (list_all (\<lambda>c. terrain c = WATER)) (cells g)"

text \<open>
  Every cell is Unburned, as in a grid that \<^verbatim>\<open>processSelectedArea\<close> has made or
  \<^verbatim>\<open>handleResetSimulation\<close> has reset; and: no cell is Burning.
\<close>

definition allUnburned :: "GridData \<Rightarrow> bool" where
  "allUnburned g = list_all (list_all (\<lambda>c. burnState c = UNBURNED)) (cells g)"

definition noneBurning :: "GridData \<Rightarrow> bool" where
  "noneBurning g = list_all (list_all (\<lambda>c. burnState c \<noteq> BURNING)) (cells g)"

text \<open>\<^verbatim>\<open>Math.random()\<close> returns numbers from 0 (included) to 1; only the lower bound is used.\<close>

definition nonneg :: "rng \<Rightarrow> bool" where
  "nonneg r = (\<forall>i. 0 \<le> r i)"

text \<open>
  The direction, in degrees, from a burning neighbour to the cell: the
  \<^verbatim>\<open>fireDirection\<close> that \<^verbatim>\<open>calculateWindEffect\<close> computes for the call in
  \<^verbatim>\<open>updateCellBurnState\<close>.
\<close>

definition fireDirection :: "Cell \<Rightarrow> Cell \<Rightarrow> real" where
  "fireDirection neighbor cell =
     Math_atan2 (of_int (cellY cell) - of_int (cellY neighbor))
       (of_int (cellX cell) - of_int (cellX neighbor)) * 180 / pi"

text \<open>
  The \<^verbatim>\<open>spreadProb\<close> that the loop of the \<^verbatim>\<open>UNBURNED\<close> case computes for a burning
  neighbour, from the wind effect between the two cells.
\<close>

definition spreadProb :: "Cell \<Rightarrow> Cell \<Rightarrow> SimulationParams \<Rightarrow> real" where
  "spreadProb neighbor cell params =
     calculateSpreadProbability neighbor cell params
       (calculateWindEffect (of_int (cellX neighbor)) (of_int (cellY neighbor))
          (of_int (cellX cell)) (of_int (cellY cell)) (windDirection params))"

text \<open>The product of the factors of \<^verbatim>\<open>calculateSpreadProbability\<close> other than the wind's.\<close>

definition windFreeFactor :: "Cell \<Rightarrow> Cell \<Rightarrow> SimulationParams \<Rightarrow> real" where
  "windFreeFactor neighbor cell params =
     getFlammability (terrain cell)
     * (0.5 + 0.5 * max 0 ((SimulationParams.temperature params - 20) / 50))
     * max 0 ((100 - SimulationParams.humidity params) / 100)
     * max 0 ((100 - rainLikelihood params) / 100)
     * (0.5 + 0.5 * burnIntensity neighbor)"

section \<open>Rounding\<close>

text \<open>
  Where a statement depends on the rounding of the doubles, the rounding is explicit:
  the machine holds \<open>fl v\<close> where the exact result is \<open>v\<close>. \<open>rounds u fl\<close> says that
  the relative error of \<open>fl\<close> is at most \<open>u\<close>.
\<close>

definition rounds :: "real \<Rightarrow> (real \<Rightarrow> real) \<Rightarrow> bool" where
  "rounds u fl \<longleftrightarrow> 0 \<le> u \<and> (\<forall>v. \<bar>fl v - v\<bar> \<le> u * \<bar>v\<bar>)"

text \<open>
  The double nearest to a real number, ties to the even significand: 53 significant
  bits, so the relative error is at most \<open>1 / 2 ^ 53\<close>. Overflow and the subnormal numbers
  are left out (the exponent is unbounded).
\<close>

definition roundHalfEven :: "real \<Rightarrow> int" where
  "roundHalfEven v =
     (let n = \<lfloor>v\<rfloor>; f = v - of_int n
      in if f < 1 / 2 then n else if f > 1 / 2 then n + 1 else if even n then n else n + 1)"

definition roundToDouble :: "real \<Rightarrow> real" where
  "roundToDouble v =
     (if v = 0 then 0
      else let q = 2 powr (of_int \<lfloor>log 2 \<bar>v\<bar>\<rfloor> - 52)
           in q * of_int (roundHalfEven (v / q)))"

text \<open>
  The \<^verbatim>\<open>BURNING\<close> case of \<^verbatim>\<open>updateCellBurnState\<close> with \<open>fl\<close> around every number
  that a double rounds: the literals \<^verbatim>\<open>0.05\<close> and \<^verbatim>\<open>0.1\<close>, the flammability
  that \<^verbatim>\<open>getFlammability\<close> returns, the difference, the product and the sum.
  \<^verbatim>\<open>burnDuration + 1\<close>, \<^verbatim>\<open>Math.max\<close> and the comparisons are exact.
\<close>

definition burnStepFl :: "(real \<Rightarrow> real) \<Rightarrow> Cell \<Rightarrow> Cell" where
  "burnStepFl fl cell =
     (let newCell = cell\<lparr>burnDuration := burnDuration cell + 1\<rparr>;
          newCell = newCell\<lparr>burnIntensity := max 0 (fl (burnIntensity cell - fl 0.05))\<rparr>;
          burnoutDuration = fl (fl (fl (getFlammability (terrain cell)) * 20) + 10)
      in if of_int (burnDuration newCell) \<ge> burnoutDuration \<or> burnIntensity newCell \<le> fl 0.1
         then newCell\<lparr>burnState := BURNED, burnIntensity := 0\<rparr>
         else newCell)"

text \<open>
  The numbers of the JavaScript engine that runs the program. \<open>arith\<close> rounds the
  result of an addition, subtraction, multiplication or division to a double;
  \<^verbatim>\<open>Math.PI\<close> is the double next to \<open>\<pi>\<close>; and the language leaves the accuracy of
  \<^verbatim>\<open>Math.tan\<close>, \<^verbatim>\<open>Math.asinh\<close>, \<^verbatim>\<open>Math.atan\<close> and \<^verbatim>\<open>Math.sinh\<close> to the engine.
  \<open>accurate u E\<close> says that each of them has a relative error of at most \<open>u\<close>.
\<close>

record Engine =
  arith :: "real \<Rightarrow> real"
  Math_PI :: real
  Math_tan :: "real \<Rightarrow> real"
  Math_asinh :: "real \<Rightarrow> real"
  Math_atan :: "real \<Rightarrow> real"
  Math_sinh :: "real \<Rightarrow> real"

definition accurate :: "real \<Rightarrow> Engine \<Rightarrow> bool" where
  "accurate u E \<longleftrightarrow>
     rounds u (arith E)
     \<and> \<bar>Math_PI E - pi\<bar> \<le> u * pi
     \<and> (\<forall>v. \<bar>Math_tan E v - tan v\<bar> \<le> u * \<bar>tan v\<bar>)
     \<and> (\<forall>v. \<bar>Math_asinh E v - arsinh v\<bar> \<le> u * \<bar>arsinh v\<bar>)
     \<and> (\<forall>v. \<bar>Math_atan E v - arctan v\<bar> \<le> u * \<bar>arctan v\<bar>)
     \<and> (\<forall>v. \<bar>Math_sinh E v - sinh v\<bar> \<le> u * \<bar>sinh v\<bar>)"

text \<open>The engine of the exact model, and one whose \<^verbatim>\<open>Math.asinh\<close> alone is slightly high.\<close>

definition exactEngine :: Engine where
  "exactEngine = \<lparr>arith = (\<lambda>v. v), Math_PI = pi, Math_tan = tan, Math_asinh = arsinh,
     Math_atan = arctan, Math_sinh = sinh\<rparr>"




section \<open>Loop invariants of the tick\<close>

text \<open>
  The state of the two loops of the tick when they reach row \<open>y\<close>, column \<open>x\<close>: the
  copy has the shape of the grid, the cells before that place (in the order of the
  loops) hold their transition, and the others are still those of the grid.
\<close>

definition tickInv ::
  "GridData \<Rightarrow> SimulationParams \<Rightarrow> rng \<Rightarrow> nat \<Rightarrow> nat \<Rightarrow> Cell list list \<times> rng \<Rightarrow> bool" where
  "tickInv g p r y x s =
     (case s of (ng, rr) \<Rightarrow>
        length ng = length (cells g) \<and>
        (\<forall>y' < length (cells g). length (ng ! y') = nat (width g)) \<and>
        rr = rngBefore g p r y x \<and>
        (\<forall>y' < length (cells g). \<forall>x' < nat (width g).
           if y' < y \<or> (y' = y \<and> x' < x)
           then (\<exists>r''. perCell g p y' x' (rngBefore g p r y' x') = Inr (ng ! y' ! x', r''))
           else ng ! y' ! x' = cells g ! y' ! x'))"

text \<open>
  The copy under the tick's loops has the shape of the grid, whatever that shape is,
  and its cells agree with the grid's on the fields a tick never writes.
\<close>

definition frameInv :: "GridData \<Rightarrow> Cell list list \<times> rng \<Rightarrow> bool" where
  "frameInv g s =
     (case s of (ng, rr) \<Rightarrow>
        length ng = length (cells g) \<and>
        (\<forall>y < length (cells g). length (ng ! y) = length (cells g ! y) \<and>
           (\<forall>x < length (cells g ! y). sameFrame (cells g ! y ! x) (ng ! y ! x))))"

section \<open>Example values\<close>

text \<open>A cell of given terrain, burn state, column, row, intensity and duration.\<close>

definition mkCell :: "TerrainType \<Rightarrow> BurnState \<Rightarrow> int \<Rightarrow> int \<Rightarrow> real \<Rightarrow> int \<Rightarrow> Cell" where
  "mkCell t b x y i d =
     \<lparr>terrain = t, burnState = b, cellX = x, cellY = y, windX = 0, windY = 0,
      humidity = 40, temperature = 30, burnIntensity = i, burnDuration = d\<rparr>"

definition demoParams :: SimulationParams where
  "demoParams = \<lparr>gridCellSize = 1, windSpeed = 10, windDirection = 0,
     SimulationParams.temperature = 30, SimulationParams.humidity = 40, rainLikelihood = 10\<rparr>"

definition demoBounds :: BoundingBox where
  "demoBounds = \<lparr>north = 1, south = 0, east = 1, west = 0\<rparr>"

text \<open>One row: a burning forest cell and, east of it, an unburned grass cell.\<close>

definition demoGrid :: GridData where
  "demoGrid = \<lparr>cells = [[mkCell FOREST BURNING 0 0 1 0, mkCell GRASS UNBURNED 1 0 0 0]],
     width = 2, height = 1, bounds = demoBounds, cellSize = 1\<rparr>"

text \<open>Three rows of three unburned grass cells; each cell knows its column and row.\<close>

definition grid3 :: GridData where
  "grid3 = \<lparr>cells =
       [[mkCell GRASS UNBURNED 0 0 0 0, mkCell GRASS UNBURNED 1 0 0 0, mkCell GRASS UNBURNED 2 0 0 0],
        [mkCell GRASS UNBURNED 0 1 0 0, mkCell GRASS UNBURNED 1 1 0 0, mkCell GRASS UNBURNED 2 1 0 0],
        [mkCell GRASS UNBURNED 0 2 0 0, mkCell GRASS UNBURNED 1 2 0 0, mkCell GRASS UNBURNED 2 2 0 0]],
     width = 3, height = 3, bounds = demoBounds, cellSize = 1\<rparr>"

text \<open>A Burned forest cell beside an Unburned grass cell.\<close>

definition ashGrid :: GridData where
  "ashGrid = \<lparr>cells = [[mkCell FOREST BURNED 0 0 0 18, mkCell GRASS UNBURNED 1 0 0 0]],
     width = 2, height = 1, bounds = demoBounds, cellSize = 1\<rparr>"

text \<open>Two Unburned Water cells.\<close>

definition lakeGrid :: GridData where
  "lakeGrid = \<lparr>cells = [[mkCell WATER UNBURNED 0 0 0 0, mkCell WATER UNBURNED 1 0 0 0]],
     width = 2, height = 1, bounds = demoBounds, cellSize = 1\<rparr>"

section \<open>Loops\<close>

lemma foldE_append:
  "foldE f (xs @ ys) s = (case foldE f xs s of Inl e \<Rightarrow> Inl e | Inr s' \<Rightarrow> foldE f ys s')"
  by (induction xs arbitrary: s) (auto split: sum.splits)

lemma foldE_upt_inv:
  assumes init: "I 0 s"
    and step: "\<And>i t. i < n \<Longrightarrow> I i t \<Longrightarrow> \<exists>t'. f i t = Inr t' \<and> I (Suc i) t'"
  shows "\<exists>s'. foldE f [0..<n] s = Inr s' \<and> I n s'"
proof -
  have "m \<le> n \<Longrightarrow> \<exists>s'. foldE f [0..<m] s = Inr s' \<and> I m s'" for m
  proof (induction m)
    case 0
    then show ?case using init by simp
  next
    case (Suc m)
    then obtain t where t: "foldE f [0..<m] s = Inr t" "I m t" by auto
    from Suc.prems have "m < n" by simp
    from step [OF this t(2)] obtain t' where "f m t = Inr t'" "I (Suc m) t'" by blast
    with t show ?case by (simp add: foldE_append)
  qed
  then show ?thesis by simp
qed

lemma foldE_preserves:
  assumes init: "P s"
    and step: "\<And>a t t'. a \<in> set xs \<Longrightarrow> P t \<Longrightarrow> f a t = Inr t' \<Longrightarrow> P t'"
    and res: "foldE f xs s = Inr s'"
  shows "P s'"
  using assms
proof (induction xs arbitrary: s)
  case Nil
  then show ?case by simp
next
  case (Cons a xs)
  from Cons.prems(3) obtain t where t: "f a s = Inr t" "foldE f xs t = Inr s'"
    by (auto split: sum.splits)
  have "P t" using Cons.prems(2) [of a s t] Cons.prems(1) t(1) by simp
  then show ?case using Cons.IH [of t] Cons.prems(2) t(2) by auto
qed

lemma getNeighbors_loop_rect:
  assumes "grid \<noteq> []" and "\<forall>row \<in> set grid. length row = w"
  shows "getNeighbors_loop grid x y ds acc =
     Inr (acc @ map (\<lambda>(dx, dy). Some (grid ! nat (y + dy) ! nat (x + dx)))
                  (filter (inGrid w (length grid) x y) ds))"
proof (induction ds arbitrary: acc)
  case Nil
  then show ?case by simp
next
  case (Cons d ds)
  obtain dx dy where d: "d = (dx, dy)" by (cases d)
  obtain row0 rest where g: "grid = row0 # rest" using assms(1) by (cases grid) auto
  have w0: "length row0 = w" using assms(2) g by simp
  show ?case
  proof (cases "inGrid w (length grid) x y d")
    case True
    then have b: "0 \<le> x + dx" "x + dx < int w" "0 \<le> y + dy" "y + dy < int (length grid)"
      by (simp_all add: inGrid_def d)
    have "grid ! nat (y + dy) \<in> set grid" using b by simp
    then have "length (grid ! nat (y + dy)) = w" using assms(2) by blast
    then have "js_index (grid ! nat (y + dy)) (nat (x + dx)) = Some (grid ! nat (y + dy) ! nat (x + dx))"
      using b by (simp add: js_index_def)
    then show ?thesis using True b w0 Cons.IH
      by (simp add: d Let_def) (simp add: g)
  next
    case False
    then have "\<not> (0 \<le> x + dx \<and> x + dx < int w \<and> 0 \<le> y + dy \<and> y + dy < int (length grid))"
      by (simp add: inGrid_def d)
    then show ?thesis using False w0 Cons.IH
      by (simp add: d Let_def) (auto simp add: g)
  qed
qed

lemma wf_grid_rows:
  assumes "wf_grid g" and "row \<in> set (cells g)"
  shows "length row = nat (width g)"
  using assms unfolding wf_grid_def list_all_iff by auto

lemma wf_gridD:
  assumes "wf_grid g"
  shows "length (cells g) = nat (height g)" "int (length (cells g)) = height g"
    and "y < length (cells g) \<Longrightarrow> length (cells g ! y) = nat (width g)"
    and "row \<in> set (cells g) \<Longrightarrow> length row = nat (width g)"
  using assms wf_grid_rows [OF assms] wf_grid_rows [OF assms nth_mem [of y "cells g"]]
  unfolding wf_grid_def by auto

lemma getNeighbors_wf:
  assumes "wf_grid g" and "cells g \<noteq> []"
  shows "getNeighbors (cells g) x y =
     Inr (map (\<lambda>(dx, dy). Some (cells g ! nat (y + dy) ! nat (x + dx)))
            (filter (inGrid (nat (width g)) (nat (height g)) x y) directions))"
  using getNeighbors_loop_rect [of "cells g" "nat (width g)" x y directions "[]"] assms wf_gridD [OF assms(1)]
  by (simp add: getNeighbors_def)

lemma spreadFromNeighbors_total:
  "\<exists>res. spreadFromNeighbors c (map Some ns) p r = Inr res"
  by (induction ns arbitrary: r) (auto simp: Let_def split: prod.splits)

lemma updateCellBurnState_total:
  "\<exists>res. updateCellBurnState c (map Some ns) p r = Inr res"
  using spreadFromNeighbors_total [of c ns p r]
  by (cases "burnState c") (auto simp: updateCellBurnState_def Let_def)

lemma map_Some_neighbors:
  "map (\<lambda>(dx, dy). Some (f dx dy)) ds = map Some (map (\<lambda>(dx, dy). f dx dy) ds)"
  by (induction ds) auto

lemma perCell_total:
  assumes "wf_grid g" and "y < nat (height g)"
  shows "\<exists>c' r'. perCell g p y x r = Inr (c', r')"
proof -
  have ne: "cells g \<noteq> []" using assms wf_gridD(1) [OF assms(1)] by auto
  obtain ns where "getNeighbors (cells g) (int x) (int y) = Inr (map Some ns)"
    using getNeighbors_wf [OF assms(1) ne, of "int x" "int y", unfolded map_Some_neighbors]
    by blast
  then show ?thesis
    using updateCellBurnState_total [of "cells g ! y ! x" ns p r]
    by (auto simp: perCell_def)
qed

lemma stepCell_perCell:
  assumes "wf_grid g" and "y < nat (height g)" and "x < nat (width g)"
  shows "stepCell g p y x (ng, r) =
     (case perCell g p y x r of Inl e \<Rightarrow> Inl e
      | Inr (c', r') \<Rightarrow> Inr (ng[y := (ng ! y)[x := c']], r'))"
proof -
  have y: "y < length (cells g)" using assms wf_gridD(1) by simp
  then have "x < length (cells g ! y)" using assms wf_gridD(3) by simp
  then show ?thesis using y
    by (simp add: stepCell_def perCell_def js_index_def split: sum.splits)
qed

section \<open>The tick, cell by cell\<close>

lemma tickInv_stepCell:
  assumes wf: "wf_grid g" and y: "y < nat (height g)" and x: "x < nat (width g)"
    and inv: "tickInv g p r y x s"
  shows "\<exists>s'. stepCell g p y x s = Inr s' \<and> tickInv g p r y (Suc x) s'"
proof -
  obtain ng rr where s: "s = (ng, rr)" by (cases s)
  have len: "length ng = length (cells g)"
    and rows: "\<forall>y' < length (cells g). length (ng ! y') = nat (width g)"
    and rr: "rr = rngBefore g p r y x"
    and pts: "\<forall>y' < length (cells g). \<forall>x' < nat (width g).
           if y' < y \<or> (y' = y \<and> x' < x)
           then (\<exists>r''. perCell g p y' x' (rngBefore g p r y' x') = Inr (ng ! y' ! x', r''))
           else ng ! y' ! x' = cells g ! y' ! x'"
    using inv unfolding tickInv_def s by auto
  have h: "length (cells g) = nat (height g)" using wf_gridD(1) [OF wf] .
  obtain c' r' where pc: "perCell g p y x rr = Inr (c', r')"
    using perCell_total [OF wf y] by blast
  let ?ng = "ng[y := (ng ! y)[x := c']]"
  have st: "stepCell g p y x s = Inr (?ng, r')"
    using stepCell_perCell [OF wf y x, of p ng rr] pc by (simp add: s)
  have r': "r' = rngBefore g p r y (Suc x)"
    using pc rr by (simp add: rngBefore_def drawsLeft_def)
  have nth: "?ng ! y' ! x' = (if y' = y \<and> x' = x then c' else ng ! y' ! x')"
    if "y' < length (cells g)" "x' < nat (width g)" for y' x'
    using that len rows y h by (auto simp: nth_list_update)
  have rows': "\<forall>y' < length (cells g). length (?ng ! y') = nat (width g)"
  proof (intro allI impI)
    fix y' assume "y' < length (cells g)"
    then show "length (?ng ! y') = nat (width g)"
      using rows len by (cases "y' = y") simp_all
  qed
  have pts': "if y' < y \<or> (y' = y \<and> x' < Suc x)
           then (\<exists>r''. perCell g p y' x' (rngBefore g p r y' x') = Inr (?ng ! y' ! x', r''))
           else ?ng ! y' ! x' = cells g ! y' ! x'"
    if yx: "y' < length (cells g)" "x' < nat (width g)" for y' x'
  proof (cases "y' = y \<and> x' = x")
    case True
    then show ?thesis using pc rr nth [OF yx] by auto
  next
    case False
    then have "?ng ! y' ! x' = ng ! y' ! x'" using nth [OF yx] by auto
    moreover have "(y' < y \<or> (y' = y \<and> x' < Suc x)) = (y' < y \<or> (y' = y \<and> x' < x))"
      using False by auto
    ultimately show ?thesis using pts yx by simp
  qed
  have "tickInv g p r y (Suc x) (?ng, r')"
    unfolding tickInv_def using len rows' r' pts' by simp
  then show ?thesis using st by blast
qed

lemma tickInv_row:
  assumes wf: "wf_grid g" and y: "y < nat (height g)" and inv: "tickInv g p r y 0 s"
  shows "\<exists>s'. foldE (\<lambda>x. stepCell g p y x) [0..<nat (width g)] s = Inr s'
           \<and> tickInv g p r (Suc y) 0 s'"
proof -
  obtain s' where s': "foldE (\<lambda>x. stepCell g p y x) [0..<nat (width g)] s = Inr s'"
      "tickInv g p r y (nat (width g)) s'"
    using foldE_upt_inv [of "tickInv g p r y" s "nat (width g)" "\<lambda>x. stepCell g p y x"]
      inv tickInv_stepCell [OF wf y] by blast
  have "tickInv g p r (Suc y) 0 s'"
    using s'(2) unfolding tickInv_def rngBefore_def
    by (auto simp: less_Suc_eq split: prod.splits if_splits)
  then show ?thesis using s'(1) by blast
qed

lemma tickInv_init: "wf_grid g \<Longrightarrow> tickInv g p r 0 0 (cells g, r)"
  unfolding tickInv_def rngBefore_def using wf_gridD(3) by auto

lemma stepSimulation_wf:
  assumes wf: "wf_grid g"
  shows "\<exists>cs. stepSimulation g p r = Inr (g\<lparr>cells := cs\<rparr>, rngRows g p (nat (height g)) r)
     \<and> length cs = nat (height g)
     \<and> (\<forall>y < nat (height g). length (cs ! y) = nat (width g)
          \<and> (\<forall>x < nat (width g).
                \<exists>r''. perCell g p y x (rngBefore g p r y x) = Inr (cs ! y ! x, r'')))"
proof -
  have h: "length (cells g) = nat (height g)" using wf_gridD(1) [OF wf] .
  obtain s' where s': "foldE (\<lambda>y. foldE (\<lambda>x. stepCell g p y x) [0..<nat (width g)])
       [0..<nat (height g)] (cells g, r) = Inr s'" "tickInv g p r (nat (height g)) 0 s'"
    using foldE_upt_inv [of "\<lambda>y. tickInv g p r y 0" "(cells g, r)" "nat (height g)"
        "\<lambda>y. foldE (\<lambda>x. stepCell g p y x) [0..<nat (width g)]"]
      tickInv_init [OF wf] tickInv_row [OF wf] by blast
  obtain cs rr where s: "s' = (cs, rr)" by (cases s')
  have "stepSimulation g p r = Inr (g\<lparr>cells := cs\<rparr>, rr)"
    using s'(1) by (simp add: stepSimulation_def s)
  moreover have "rr = rngRows g p (nat (height g)) r"
    using s'(2) by (simp add: tickInv_def s rngBefore_def)
  moreover have "length cs = nat (height g)"
    using s'(2) h by (simp add: tickInv_def s)
  moreover have "\<forall>y < nat (height g). length (cs ! y) = nat (width g)
          \<and> (\<forall>x < nat (width g).
                \<exists>r''. perCell g p y x (rngBefore g p r y x) = Inr (cs ! y ! x, r''))"
    using s'(2) h by (simp add: tickInv_def s)
  ultimately show ?thesis by blast
qed

lemma wf_demoGrid: "wf_grid demoGrid"
  by (simp add: wf_grid_def demoGrid_def)

text \<open>
  Claim C1. On a grid of \<open>height\<close> rows of \<open>width\<close> cells the tick returns a grid, and
  the cell it holds at row \<open>y\<close>, column \<open>x\<close> is the result of \<open>updateCellBurnState\<close> on
  the cell at that place before the tick and on the neighbours that \<open>getNeighbors\<close>
  reads off the grid before the tick (that is \<open>perCell\<close>), with the random draws left
  over by the cells before it. No cell sees a cell of the new grid.
\<close>

theorem stepSimulation_pre_tick:
  assumes "wf_grid g"
  shows "\<exists>g' r'. stepSimulation g p r = Inr (g', r')
     \<and> (\<forall>y < nat (height g). \<forall>x < nat (width g).
           \<exists>r''. perCell g p y x (rngBefore g p r y x) = Inr (cells g' ! y ! x, r''))"
proof -
  obtain cs where cs: "stepSimulation g p r = Inr (g\<lparr>cells := cs\<rparr>, rngRows g p (nat (height g)) r)"
    and pts: "\<forall>y < nat (height g). length (cs ! y) = nat (width g)
          \<and> (\<forall>x < nat (width g).
                \<exists>r''. perCell g p y x (rngBefore g p r y x) = Inr (cs ! y ! x, r''))"
    using stepSimulation_wf [OF assms, of p r] by blast
  show ?thesis
  proof (intro exI conjI)
    show "stepSimulation g p r = Inr (g\<lparr>cells := cs\<rparr>, rngRows g p (nat (height g)) r)"
      by (rule cs)
    show "\<forall>y < nat (height g). \<forall>x < nat (width g).
           \<exists>r''. perCell g p y x (rngBefore g p r y x) = Inr (cells (g\<lparr>cells := cs\<rparr>) ! y ! x, r'')"
      using pts by simp
  qed
qed

theorem stepSimulation_pre_tick_witness:
  "wf_grid demoGrid
   \<and> (\<exists>g' r'. stepSimulation demoGrid demoParams (\<lambda>_. 0) = Inr (g', r')
        \<and> (\<forall>y < nat (height demoGrid). \<forall>x < nat (width demoGrid).
              \<exists>r''. perCell demoGrid demoParams y x (rngBefore demoGrid demoParams (\<lambda>_. 0) y x)
                      = Inr (cells g' ! y ! x, r'')))"
  using stepSimulation_pre_tick [OF wf_demoGrid, of demoParams "\<lambda>_. 0"] wf_demoGrid by simp

section \<open>The fallback colour\<close>

lemma rgbToHsv_fallback: "rgbToHsv 120 150 80 = (86, 47, 59)"
  by (simp add: rgbToHsv_def Let_def Math_round_def)

lemma classifyTerrain_fallback: "classifyTerrain 120 150 80 = FOREST"
  by (simp add: classifyTerrain_def rgbToHsv_fallback)

text \<open>
  Claim C2. A grid cell whose location has no tile among the loaded ones gets the
  terrain that \<open>classifyTerrain\<close> gives the fixed colour (120, 150, 80). That colour
  has hue 86, saturation 47 and value 59, which the Forest rule (hue 80 to 160,
  saturation above 30, value below 60) takes before the Grass rule is tried: the
  terrain is Forest, not Grass.
\<close>

theorem sampleTerrainAtLocation_no_tile:
  "find (\<lambda>t. tileX t = fst (latLonToTile lat lon 16) \<and> tileY t = snd (latLonToTile lat lon 16)) tiles = None
   \<Longrightarrow> sampleTerrainAtLocation lat lon tiles = classifyTerrain 120 150 80
     \<and> classifyTerrain 120 150 80 = FOREST
     \<and> sampleTerrainAtLocation lat lon tiles \<noteq> GRASS"
  by (simp add: sampleTerrainAtLocation_def Let_def classifyTerrain_fallback)

theorem sampleTerrainAtLocation_no_tile_witness:
  "find (\<lambda>t. tileX t = fst (latLonToTile 0 0 16) \<and> tileY t = snd (latLonToTile 0 0 16)) [] = None
   \<and> sampleTerrainAtLocation 0 0 [] = FOREST"
  using sampleTerrainAtLocation_no_tile [of 0 0 "[]"] by simp

section \<open>One cell in one tick\<close>

lemma spreadFromNeighbors_cases:
  "spreadFromNeighbors c ns p r = Inr (c', r') \<Longrightarrow> c' = c \<or> (\<exists>v. c' = ignited c v)"
proof (induction c ns p r rule: spreadFromNeighbors.induct)
  case (1 cell params r)
  then show ?case by simp
next
  case (2 cell ns params r)
  then show ?case by simp
next
  case (3 cell neighbor ns params r)
  then show ?case
    by (auto simp: Let_def ignited_def Math_random_def split: if_splits)
qed

lemma updateCellBurnState_BURNING:
  "burnState c = BURNING \<Longrightarrow> updateCellBurnState c ns p r = Inr (burnStep c, r)"
  by (simp add: updateCellBurnState_def burnStep_def Let_def)

lemma updateCellBurnState_BURNED:
  "burnState c = BURNED \<Longrightarrow> updateCellBurnState c ns p r = Inr (c, r)"
  by (simp add: updateCellBurnState_def)

lemma updateCellBurnState_UNBURNED:
  "burnState c = UNBURNED \<Longrightarrow> updateCellBurnState c ns p r = spreadFromNeighbors c ns p r"
  by (simp add: updateCellBurnState_def)

lemma updateCellBurnState_cases:
  assumes "updateCellBurnState c ns p r = Inr (c', r')"
  shows "(burnState c = UNBURNED \<and> (c' = c \<or> (\<exists>v. c' = ignited c v)))
       \<or> (burnState c = BURNING \<and> c' = burnStep c \<and> r' = r)
       \<or> (burnState c = BURNED \<and> c' = c \<and> r' = r)"
proof (cases "burnState c")
  case UNBURNED
  then show ?thesis
    using assms spreadFromNeighbors_cases [of c ns p r c' r']
    by (simp add: updateCellBurnState_UNBURNED)
next
  case BURNING
  then show ?thesis using assms by (simp add: updateCellBurnState_BURNING)
next
  case BURNED
  then show ?thesis using assms by (simp add: updateCellBurnState_BURNED)
qed

lemma sameFrame_refl: "sameFrame c c" by (simp add: sameFrame_def)
lemma sameFrame_ignited: "sameFrame c (ignited c v)" by (simp add: sameFrame_def ignited_def)
lemma sameFrame_burnStep: "sameFrame c (burnStep c)" by (simp add: sameFrame_def burnStep_def)
lemma sameFrame_trans: "sameFrame a b \<Longrightarrow> sameFrame b c \<Longrightarrow> sameFrame a c"
  by (simp add: sameFrame_def)

lemma updateCellBurnState_sameFrame:
  "updateCellBurnState c ns p r = Inr (c', r') \<Longrightarrow> sameFrame c c'"
  using updateCellBurnState_cases [of c ns p r c' r']
  by (auto simp: sameFrame_refl sameFrame_ignited sameFrame_burnStep)

lemma burnRank_burnStep: "burnState c = BURNING \<Longrightarrow> 1 \<le> burnRank (burnState (burnStep c))"
  by (simp add: burnStep_def burnRank_def)

lemma updateCellBurnState_forward:
  assumes "updateCellBurnState c ns p r = Inr (c', r')"
  shows "burnRank (burnState c) \<le> burnRank (burnState c')"
    and "burnState c = BURNED \<Longrightarrow> c' = c"
  using updateCellBurnState_cases [OF assms] burnRank_burnStep [of c]
  by (auto simp: burnRank_def ignited_def)

section \<open>A burning cell\<close>

lemma roundHalfEven_near: "\<bar>of_int (roundHalfEven v) - v\<bar> \<le> 1 / 2"
  unfolding roundHalfEven_def Let_def by (auto simp: abs_le_iff)

lemma rounds_roundToDouble: "rounds (1 / 2 ^ 53) roundToDouble"
  unfolding rounds_def
proof (intro conjI allI)
  show "(0::real) \<le> 1 / 2 ^ 53" by simp
  fix v :: real
  show "\<bar>roundToDouble v - v\<bar> \<le> 1 / 2 ^ 53 * \<bar>v\<bar>"
  proof (cases "v = 0")
    case True
    then show ?thesis by (simp add: roundToDouble_def)
  next
    case False
    define e where "e = \<lfloor>log 2 \<bar>v\<bar>\<rfloor>"
    define q :: real where "q = 2 powr (of_int e - 52)"
    have q0: "0 < q" by (simp add: q_def)
    have "2 powr of_int e \<le> 2 powr log 2 \<bar>v\<bar>"
      unfolding e_def by (intro powr_mono) simp_all
    then have pe: "2 powr of_int e \<le> \<bar>v\<bar>" using False by simp
    have "q = 2 powr of_int e / 2 powr 52" by (simp add: q_def powr_diff)
    also have "(2::real) powr 52 = 2 ^ 52" by (simp add: powr_numeral del: power_numeral)
    finally have q: "q = 2 powr of_int e / 2 ^ 52" .
    have "\<bar>q * of_int (roundHalfEven (v / q)) - v\<bar> = q * \<bar>of_int (roundHalfEven (v / q)) - v / q\<bar>"
    proof -
      have "q * of_int (roundHalfEven (v / q)) - v = q * (of_int (roundHalfEven (v / q)) - v / q)"
        using q0 by (simp add: right_diff_distrib)
      then show ?thesis using q0 by (simp only: abs_mult)
    qed
    also have "\<dots> \<le> q * (1 / 2)"
      using q0 roundHalfEven_near [of "v / q"] by (intro mult_left_mono) simp_all
    also have "\<dots> \<le> 1 / 2 ^ 53 * \<bar>v\<bar>" using pe unfolding q by simp
    finally show ?thesis using False by (simp add: roundToDouble_def Let_def e_def q_def)
  qed
qed

lemma burnStepFl_exact: "burnStepFl (\<lambda>v. v) c = burnStep c"
  by (simp add: burnStepFl_def burnStep_def Let_def)

lemma roundsD:
  assumes "rounds u fl" and "\<bar>v\<bar> \<le> m"
  shows "\<bar>fl v - v\<bar> \<le> u * m"
proof -
  have "\<bar>fl v - v\<bar> \<le> u * \<bar>v\<bar>" using assms(1) by (simp add: rounds_def)
  also have "\<dots> \<le> u * m" using assms by (intro mult_left_mono) (simp_all add: rounds_def)
  finally show ?thesis .
qed

lemma burnout_forest:
  assumes R: "rounds u fl" and u: "u \<le> 1 / 10000"
  shows "25 < fl (fl (fl 0.8 * 20) + 10)"
proof -
  have u0: "0 \<le> u" using R by (simp add: rounds_def)
  have a: "\<bar>fl 0.8 - 0.8\<bar> \<le> u * 1" using roundsD [OF R, of "0.8" 1] by simp
  then have a': "\<bar>fl 0.8 * 20\<bar> \<le> 40" using u u0 by (simp add: abs_le_iff)
  have b: "\<bar>fl (fl 0.8 * 20) - fl 0.8 * 20\<bar> \<le> u * 40" using roundsD [OF R a'] .
  then have b': "\<bar>fl (fl 0.8 * 20) + 10\<bar> \<le> 100" using a u u0 by (simp add: abs_le_iff)
  have c: "\<bar>fl (fl (fl 0.8 * 20) + 10) - (fl (fl 0.8 * 20) + 10)\<bar> \<le> u * 100"
    using roundsD [OF R b'] .
  show ?thesis using a b c u u0 by (simp add: abs_le_iff)
qed

lemma burnStepFl_step:
  assumes R: "rounds u fl" and u: "u \<le> 1 / 10000"
    and fl8: "getFlammability (terrain c) = 0.8"
    and k: "k \<le> 18" and dur: "burnDuration c = int k"
    and i: "\<bar>burnIntensity c - (1 - real k / 20)\<bar> \<le> 3 * real k * u"
  shows "\<exists>v. \<bar>v - (1 - real (Suc k) / 20)\<bar> \<le> 3 * real (Suc k) * u \<and>
         burnStepFl fl c =
           (if v \<le> fl 0.1
            then c\<lparr>burnDuration := int (Suc k), burnIntensity := 0, burnState := BURNED\<rparr>
            else c\<lparr>burnDuration := int (Suc k), burnIntensity := v\<rparr>)"
proof -
  have u0: "0 \<le> u" using R by (simp add: rounds_def)
  have rk: "real k \<le> 18" using k by simp
  define w where "w = real k * u"
  have ku: "w \<le> 18 * u" unfolding w_def using rk u0 by (intro mult_right_mono) simp_all
  have i': "\<bar>burnIntensity c - (1 - real k / 20)\<bar> \<le> 3 * w"
    using i by (simp add: w_def mult.assoc)
  define d where "d = fl 0.05"
  define x where "x = burnIntensity c - d"
  define v where "v = max 0 (fl x)"
  have d: "\<bar>d - 1 / 20\<bar> \<le> u"
    using roundsD [OF R, of "0.05" 1] by (simp add: d_def)
  have k0: "0 \<le> real k" by simp
  have xb: "\<bar>x\<bar> \<le> 2" using i' d ku u u0 rk k0 unfolding x_def by linarith
  have fx: "\<bar>fl x - x\<bar> \<le> u * 2" using roundsD [OF R xb] .
  have s: "real (Suc k) = real k + 1" by simp
  have t0: "0 \<le> 1 - (real k + 1) / 20" using rk by simp
  have e: "\<bar>fl x - (1 - (real k + 1) / 20)\<bar> \<le> 3 * w + 3 * u"
    using fx d i' unfolding x_def by argo
  have "\<bar>v - (1 - (real k + 1) / 20)\<bar> \<le> 3 * w + 3 * u"
    using e t0 u0 unfolding v_def by argo
  also have "3 * w + 3 * u = 3 * real (Suc k) * u"
    unfolding w_def s by (simp add: algebra_simps)
  finally have ve: "\<bar>v - (1 - real (Suc k) / 20)\<bar> \<le> 3 * real (Suc k) * u"
    unfolding s .
  have Hh: "25 < fl (fl (fl (getFlammability (terrain c)) * 20) + 10)"
    using burnout_forest [OF R u] by (simp add: fl8)
  have nd: "\<not> real_of_int (int (Suc k)) \<ge> fl (fl (fl (getFlammability (terrain c)) * 20) + 10)"
    using Hh rk by simp
  have "burnStepFl fl c =
           (if v \<le> fl 0.1
            then c\<lparr>burnDuration := int (Suc k), burnIntensity := 0, burnState := BURNED\<rparr>
            else c\<lparr>burnDuration := int (Suc k), burnIntensity := v\<rparr>)"
    using nd unfolding burnStepFl_def Let_def v_def x_def d_def dur by (simp add: add.commute)
  then show ?thesis using ve by blast
qed


lemma fl_tenth:
  assumes R: "rounds u fl"
  shows "\<bar>fl 0.1 - 1 / 10\<bar> \<le> u"
  using roundsD [OF R, of "0.1" 1] by simp

lemma burnStepFl_burning:
  assumes R: "rounds u fl" and u: "u \<le> 1 / 10000"
    and fl8: "getFlammability (terrain c) = 0.8"
    and st: "burnState c = BURNING" and i1: "burnIntensity c = 1" and d0: "burnDuration c = 0"
  shows "k \<le> 17 \<Longrightarrow>
         burnState ((burnStepFl fl ^^ k) c) = BURNING
         \<and> terrain ((burnStepFl fl ^^ k) c) = terrain c
         \<and> burnDuration ((burnStepFl fl ^^ k) c) = int k
         \<and> \<bar>burnIntensity ((burnStepFl fl ^^ k) c) - (1 - real k / 20)\<bar> \<le> 3 * real k * u"
proof (induction k)
  case 0
  show ?case using st i1 d0 by simp
next
  case (Suc k)
  define ck where "ck = (burnStepFl fl ^^ k) c"
  have u0: "0 \<le> u" using R by (simp add: rounds_def)
  have IH: "burnState ck = BURNING" "terrain ck = terrain c" "burnDuration ck = int k"
    "\<bar>burnIntensity ck - (1 - real k / 20)\<bar> \<le> 3 * real k * u"
    using Suc unfolding ck_def by simp_all
  have k18: "k \<le> 18" using Suc.prems by simp
  obtain v where v: "\<bar>v - (1 - real (Suc k) / 20)\<bar> \<le> 3 * real (Suc k) * u"
    and eq: "burnStepFl fl ck =
           (if v \<le> fl 0.1
            then ck\<lparr>burnDuration := int (Suc k), burnIntensity := 0, burnState := BURNED\<rparr>
            else ck\<lparr>burnDuration := int (Suc k), burnIntensity := v\<rparr>)"
    using burnStepFl_step [OF R u _ k18 IH(3) IH(4)] fl8 IH(2) by auto
  have rk: "real (Suc k) \<le> 17" using Suc.prems by (simp del: of_nat_Suc)
  have "3 * real (Suc k) * u \<le> 3 * 17 * u"
    using rk u0 by (intro mult_right_mono mult_left_mono) simp_all
  then have "v > fl 0.1" using v fl_tenth [OF R] rk u by argo
  then have "burnStepFl fl ck = ck\<lparr>burnDuration := int (Suc k), burnIntensity := v\<rparr>"
    using eq by simp
  then show ?case using IH v unfolding funpow.simps o_def ck_def [symmetric] by simp
qed

lemma burnStepFl_burns_out:
  assumes R: "rounds u fl" and u: "u \<le> 1 / 10000"
    and fl8: "getFlammability (terrain c) = 0.8"
    and st: "burnState c = BURNING" and i1: "burnIntensity c = 1" and d0: "burnDuration c = 0"
  shows "burnState ((burnStepFl fl ^^ 18) c) = BURNED
         \<or> (burnState ((burnStepFl fl ^^ 18) c) = BURNING
            \<and> burnState ((burnStepFl fl ^^ 19) c) = BURNED)"
proof -
  define c17 where "c17 = (burnStepFl fl ^^ 17) c"
  define c18 where "c18 = burnStepFl fl c17"
  have u0: "0 \<le> u" using R by (simp add: rounds_def)
  have e18: "(burnStepFl fl ^^ 18) c = c18"
    unfolding c18_def c17_def by (simp add: eval_nat_numeral)
  have e19: "(burnStepFl fl ^^ 19) c = burnStepFl fl c18"
    unfolding c18_def c17_def by (simp add: eval_nat_numeral)
  have I: "burnState c17 = BURNING" "terrain c17 = terrain c" "burnDuration c17 = int 17"
    "\<bar>burnIntensity c17 - (1 - real 17 / 20)\<bar> \<le> 3 * real 17 * u"
    using burnStepFl_burning [OF R u fl8 st i1 d0, of 17] unfolding c17_def by simp_all
  obtain v where v: "\<bar>v - (1 - real (Suc 17) / 20)\<bar> \<le> 3 * real (Suc 17) * u"
    and eq: "c18 =
           (if v \<le> fl 0.1
            then c17\<lparr>burnDuration := int (Suc 17), burnIntensity := 0, burnState := BURNED\<rparr>
            else c17\<lparr>burnDuration := int (Suc 17), burnIntensity := v\<rparr>)"
    using burnStepFl_step [OF R u _ _ I(3) I(4)] fl8 I(2) unfolding c18_def by auto
  show ?thesis
  proof (cases "v \<le> fl 0.1")
    case True
    then show ?thesis using eq e18 by simp
  next
    case False
    then have c18: "c18 = c17\<lparr>burnDuration := int 18, burnIntensity := v\<rparr>"
      using eq by simp
    have J: "burnState c18 = BURNING" "terrain c18 = terrain c" "burnDuration c18 = int 18"
      "\<bar>burnIntensity c18 - (1 - real 18 / 20)\<bar> \<le> 3 * real 18 * u"
      using I v by (simp_all add: c18)
    obtain v' where v': "\<bar>v' - (1 - real (Suc 18) / 20)\<bar> \<le> 3 * real (Suc 18) * u"
      and eq': "burnStepFl fl c18 =
           (if v' \<le> fl 0.1
            then c18\<lparr>burnDuration := int (Suc 18), burnIntensity := 0, burnState := BURNED\<rparr>
            else c18\<lparr>burnDuration := int (Suc 18), burnIntensity := v'\<rparr>)"
      using burnStepFl_step [OF R u _ _ J(3) J(4)] fl8 J(2) by auto
    have "v' \<le> fl 0.1" using v' fl_tenth [OF R] u u0 by simp
    then show ?thesis using eq' e18 e19 J(1) by simp
  qed
qed


text \<open>
  Claim C4. For a Burning cell one tick adds 1 to \<open>burnDuration\<close> and takes 0.05 off
  \<open>burnIntensity\<close>, not below 0; the cell becomes Burned, with intensity 0, exactly
  when the new duration is at least \<open>getFlammability terrain * 20 + 10\<close> or the new
  intensity is at most 0.1. The neighbours, the parameters and the random draws play
  no part. With exact numbers this is \<open>burnStepFl\<close> without rounding. With numbers
  rounded at a relative error of at most \<open>1 / 10000\<close> (a double: \<open>1 / 2 ^ 53\<close>), a cell of
  flammability 0.8 that starts to burn with intensity 1 and duration 0 is still
  Burning after each of its first 17 ticks, and is Burned after the 18th or, when the
  rounded intensity is then just above the rounded 0.1, after the 19th: within 18 to
  26 ticks. The intensity gets there before the duration reaches 26.
\<close>

theorem burning_cell_tick:
  assumes "burnState c = BURNING"
  shows "updateCellBurnState c ns p r =
           Inr (if real_of_int (burnDuration c + 1) \<ge> getFlammability (terrain c) * 20 + 10
                   \<or> max 0 (burnIntensity c - 0.05) \<le> 0.1
                then c\<lparr>burnDuration := burnDuration c + 1, burnIntensity := 0,
                       burnState := BURNED\<rparr>
                else c\<lparr>burnDuration := burnDuration c + 1,
                       burnIntensity := max 0 (burnIntensity c - 0.05)\<rparr>, r)
     \<and> updateCellBurnState c ns p r = Inr (burnStepFl (\<lambda>v. v) c, r)
     \<and> (rounds u fl \<and> u \<le> 1 / 10000
          \<and> getFlammability (terrain c) = 0.8 \<and> burnIntensity c = 1 \<and> burnDuration c = 0 \<longrightarrow>
          (\<forall>k \<le> 17. burnState ((burnStepFl fl ^^ k) c) = BURNING)
        \<and> (burnState ((burnStepFl fl ^^ 18) c) = BURNED
           \<or> burnState ((burnStepFl fl ^^ 18) c) = BURNING
              \<and> burnState ((burnStepFl fl ^^ 19) c) = BURNED))"
proof (intro conjI impI)
  show "updateCellBurnState c ns p r =
           Inr (if real_of_int (burnDuration c + 1) \<ge> getFlammability (terrain c) * 20 + 10
                   \<or> max 0 (burnIntensity c - 0.05) \<le> 0.1
                then c\<lparr>burnDuration := burnDuration c + 1, burnIntensity := 0,
                       burnState := BURNED\<rparr>
                else c\<lparr>burnDuration := burnDuration c + 1,
                       burnIntensity := max 0 (burnIntensity c - 0.05)\<rparr>, r)"
    using updateCellBurnState_BURNING [OF assms, of ns p r] by (simp add: burnStep_def)
  show "updateCellBurnState c ns p r = Inr (burnStepFl (\<lambda>v. v) c, r)"
    using updateCellBurnState_BURNING [OF assms, of ns p r] by (simp add: burnStepFl_exact)
next
  assume a: "rounds u fl \<and> u \<le> 1 / 10000
          \<and> getFlammability (terrain c) = 0.8 \<and> burnIntensity c = 1 \<and> burnDuration c = 0"
  show "\<forall>k \<le> 17. burnState ((burnStepFl fl ^^ k) c) = BURNING"
    using burnStepFl_burning [of u fl c] a assms by blast
  show "burnState ((burnStepFl fl ^^ 18) c) = BURNED
           \<or> burnState ((burnStepFl fl ^^ 18) c) = BURNING
              \<and> burnState ((burnStepFl fl ^^ 19) c) = BURNED"
    using burnStepFl_burns_out [of u fl c] a assms by blast
qed

theorem burning_cell_tick_witness:
  "burnState (mkCell FOREST BURNING 0 0 1 0) = BURNING
   \<and> updateCellBurnState (mkCell FOREST BURNING 0 0 1 0) [] demoParams (\<lambda>_. 0)
       = Inr (mkCell FOREST BURNING 0 0 0.95 1, \<lambda>_. 0)
   \<and> rounds (1 / 2 ^ 53) roundToDouble
   \<and> getFlammability (terrain (mkCell FOREST BURNING 0 0 1 0)) = 0.8
   \<and> burnState ((burnStepFl roundToDouble ^^ 17) (mkCell FOREST BURNING 0 0 1 0)) = BURNING
   \<and> (burnState ((burnStepFl roundToDouble ^^ 18) (mkCell FOREST BURNING 0 0 1 0)) = BURNED
      \<or> burnState ((burnStepFl roundToDouble ^^ 19) (mkCell FOREST BURNING 0 0 1 0)) = BURNED)"
proof -
  let ?c = "mkCell FOREST BURNING 0 0 1 0"
  have c: "burnState ?c = BURNING" "getFlammability (terrain ?c) = 0.8"
    "burnIntensity ?c = 1" "burnDuration ?c = 0"
    by (simp_all add: mkCell_def)
  have u: "(1::real) / 2 ^ 53 \<le> 1 / 10000" by simp
  note t = burning_cell_tick [OF c(1), of "[]" demoParams "\<lambda>_. 0" "1 / 2 ^ 53" roundToDouble]
  have 1: "updateCellBurnState ?c [] demoParams (\<lambda>_. 0) = Inr (mkCell FOREST BURNING 0 0 0.95 1, \<lambda>_. 0)"
    using t by (simp add: mkCell_def)
  have 2: "(\<forall>k \<le> 17. burnState ((burnStepFl roundToDouble ^^ k) ?c) = BURNING)
        \<and> (burnState ((burnStepFl roundToDouble ^^ 18) ?c) = BURNED
           \<or> burnState ((burnStepFl roundToDouble ^^ 18) ?c) = BURNING
              \<and> burnState ((burnStepFl roundToDouble ^^ 19) ?c) = BURNED)"
    using t rounds_roundToDouble u c by blast
  then have "burnState ((burnStepFl roundToDouble ^^ 17) ?c) = BURNING" by simp
  then show ?thesis using c 1 2 rounds_roundToDouble by blast
qed

section \<open>The order of the neighbours\<close>

lemma spreadFromNeighbors_ignited_prefix:
  "spreadFromNeighbors c pre p r = Inr (c', r') \<Longrightarrow> burnState c = UNBURNED
   \<Longrightarrow> burnState c' = BURNING \<Longrightarrow> spreadFromNeighbors c (pre @ post) p r = Inr (c', r')"
  by (induction c pre p r rule: spreadFromNeighbors.induct)
     (auto simp: Let_def split: if_splits prod.splits)

lemma spreadFromNeighbors_quiet_prefix:
  "spreadFromNeighbors c pre p r = Inr (c', r') \<Longrightarrow> burnState c' = UNBURNED
   \<Longrightarrow> spreadFromNeighbors c (pre @ post) p r = spreadFromNeighbors c post p r'"
  by (induction c pre p r rule: spreadFromNeighbors.induct)
     (auto simp: Let_def split: if_splits prod.splits)

lemma getNeighbors_grid3:
  "getNeighbors (cells grid3) 1 1 =
     Inr [Some (mkCell GRASS UNBURNED 0 0 0 0), Some (mkCell GRASS UNBURNED 0 1 0 0),
          Some (mkCell GRASS UNBURNED 0 2 0 0), Some (mkCell GRASS UNBURNED 1 0 0 0),
          Some (mkCell GRASS UNBURNED 1 2 0 0), Some (mkCell GRASS UNBURNED 2 0 0 0),
          Some (mkCell GRASS UNBURNED 2 1 0 0), Some (mkCell GRASS UNBURNED 2 2 0 0)]"
  by (simp add: getNeighbors_def directions_def grid3_def js_index_def)

lemma wf_grid3: "wf_grid grid3"
  by (simp add: wf_grid_def grid3_def)

lemma calculateWindEffect_east: "calculateWindEffect 0 0 1 0 0 = 1"
  by (simp add: calculateWindEffect_def Math_atan2_def js_rem_def js_trunc_def Let_def)

lemma ignite_from_west:
  "updateCellBurnState (mkCell GRASS UNBURNED 1 0 0 0) [Some (mkCell FOREST BURNING 0 0 1 0)]
     demoParams (\<lambda>_. 0) = Inr (mkCell GRASS BURNING 1 0 0.5 0, \<lambda>_. 0)"
  by (simp add: updateCellBurnState_def mkCell_def Let_def Math_random_def
      calculateWindEffect_east calculateSpreadProbability_def demoParams_def)

text \<open>
  Claim C3, as the program has it. \<open>getNeighbors\<close> reads the offsets
  (-1,-1), (-1,0), (-1,1), (0,-1), (0,1), (1,-1), (1,0), (1,1) as \<open>(dx, dy)\<close>, not as
  \<open>(dy, dx)\<close>: the neighbours of a cell come column by column, the west column from
  top to bottom first, and those outside the grid are left out. An Unburned cell goes
  through that list from left to right: once a neighbour has ignited it, the
  neighbours after that one are not looked at (and take no random draw); while none
  has, the next neighbour is tried with the draws left.
\<close>

theorem neighbors_order_and_early_stop:
  "(wf_grid g \<and> 0 \<le> x \<and> x < width g \<and> 0 \<le> y \<and> y < height g \<longrightarrow>
      getNeighbors (cells g) x y =
        Inr (map (\<lambda>(dx, dy). Some (cells g ! nat (y + dy) ! nat (x + dx)))
               (filter (inGrid (nat (width g)) (nat (height g)) x y)
                  [(-1, -1), (-1, 0), (-1, 1), (0, -1), (0, 1), (1, -1), (1, 0), (1, 1)])))
   \<and> (burnState c = UNBURNED \<and> updateCellBurnState c pre p r = Inr (c', r')
        \<and> burnState c' = BURNING \<longrightarrow>
      updateCellBurnState c (pre @ post) p r = Inr (c', r'))
   \<and> (burnState c = UNBURNED \<and> updateCellBurnState c pre p r = Inr (c', r')
        \<and> burnState c' = UNBURNED \<longrightarrow>
      updateCellBurnState c (pre @ post) p r = updateCellBurnState c post p r')"
proof (intro conjI impI)
  assume a: "wf_grid g \<and> 0 \<le> x \<and> x < width g \<and> 0 \<le> y \<and> y < height g"
  then have "cells g \<noteq> []" using wf_gridD(2) [of g] by auto
  then show "getNeighbors (cells g) x y =
        Inr (map (\<lambda>(dx, dy). Some (cells g ! nat (y + dy) ! nat (x + dx)))
               (filter (inGrid (nat (width g)) (nat (height g)) x y)
                  [(-1, -1), (-1, 0), (-1, 1), (0, -1), (0, 1), (1, -1), (1, 0), (1, 1)]))"
    using getNeighbors_wf [of g x y] a by (simp add: directions_def)
next
  assume "burnState c = UNBURNED \<and> updateCellBurnState c pre p r = Inr (c', r')
        \<and> burnState c' = BURNING"
  then show "updateCellBurnState c (pre @ post) p r = Inr (c', r')"
    using spreadFromNeighbors_ignited_prefix [of c pre p r c' r' post]
    by (auto simp: updateCellBurnState_UNBURNED)
next
  assume "burnState c = UNBURNED \<and> updateCellBurnState c pre p r = Inr (c', r')
        \<and> burnState c' = UNBURNED"
  then show "updateCellBurnState c (pre @ post) p r = updateCellBurnState c post p r'"
    using spreadFromNeighbors_quiet_prefix [of c pre p r c' r' post]
    by (auto simp: updateCellBurnState_UNBURNED)
qed

theorem neighbors_order_and_early_stop_witness:
  "wf_grid grid3
   \<and> getNeighbors (cells grid3) 1 1 =
       Inr [Some (mkCell GRASS UNBURNED 0 0 0 0), Some (mkCell GRASS UNBURNED 0 1 0 0),
            Some (mkCell GRASS UNBURNED 0 2 0 0), Some (mkCell GRASS UNBURNED 1 0 0 0),
            Some (mkCell GRASS UNBURNED 1 2 0 0), Some (mkCell GRASS UNBURNED 2 0 0 0),
            Some (mkCell GRASS UNBURNED 2 1 0 0), Some (mkCell GRASS UNBURNED 2 2 0 0)]
   \<and> updateCellBurnState (mkCell GRASS UNBURNED 1 0 0 0)
         ([Some (mkCell FOREST BURNING 0 0 1 0)] @ [None]) demoParams (\<lambda>_. 0)
       = Inr (mkCell GRASS BURNING 1 0 0.5 0, \<lambda>_. 0)
   \<and> updateCellBurnState (mkCell GRASS UNBURNED 1 0 0 0)
         ([Some (mkCell GRASS UNBURNED 0 0 0 0)] @ [Some (mkCell FOREST BURNING 0 0 1 0)])
         demoParams (\<lambda>_. 0)
       = updateCellBurnState (mkCell GRASS UNBURNED 1 0 0 0)
           [Some (mkCell FOREST BURNING 0 0 1 0)] demoParams (\<lambda>_. 0)"
proof -
  have quiet: "updateCellBurnState (mkCell GRASS UNBURNED 1 0 0 0)
      [Some (mkCell GRASS UNBURNED 0 0 0 0)] demoParams (\<lambda>_. 0)
      = Inr (mkCell GRASS UNBURNED 1 0 0 0, \<lambda>_. 0)"
    by (simp add: updateCellBurnState_def mkCell_def)
  have st: "burnState (mkCell GRASS UNBURNED 1 0 0 0) = UNBURNED"
    "burnState (mkCell GRASS BURNING 1 0 0.5 0) = BURNING"
    by (simp_all add: mkCell_def)
  have dims: "0 \<le> (1::int)" "1 < width grid3" "1 < height grid3"
    by (simp_all add: grid3_def)
  show ?thesis
    using neighbors_order_and_early_stop [of grid3 1 1 "mkCell GRASS UNBURNED 1 0 0 0"
        "[Some (mkCell FOREST BURNING 0 0 1 0)]" demoParams "\<lambda>_. 0"
        "mkCell GRASS BURNING 1 0 0.5 0" "\<lambda>_. 0" "[None]"]
      neighbors_order_and_early_stop [of grid3 1 1 "mkCell GRASS UNBURNED 1 0 0 0"
        "[Some (mkCell GRASS UNBURNED 0 0 0 0)]" demoParams "\<lambda>_. 0"
        "mkCell GRASS UNBURNED 1 0 0 0" "\<lambda>_. 0" "[Some (mkCell FOREST BURNING 0 0 1 0)]"]
      wf_grid3 getNeighbors_grid3 ignite_from_west quiet st dims
    by simp
qed

text \<open>
  On the three-by-three grid the neighbours of the centre are not in the order that
  the same offsets give when read as \<open>(dy, dx)\<close>.
\<close>

theorem getNeighbors_order_counterexample:
  "getNeighbors (cells grid3) 1 1 \<noteq>
     Inr (map (\<lambda>(dy, dx). Some (cells grid3 ! nat (1 + dy) ! nat (1 + dx)))
            [(-1, -1), (-1, 0), (-1, 1), (0, -1), (0, 1), (1, -1), (1, 0), (1, 1)])"
  by (simp add: getNeighbors_def directions_def grid3_def js_index_def mkCell_def)

section \<open>Ignition\<close>

lemma map_id_rows: "map (\<lambda>row. row) cs = cs" by (induction cs) auto

lemma igniteCell_on_wf:
  assumes "wf_grid g"
  shows "igniteCell g x y =
     Inr (if 0 \<le> x \<and> x < width g \<and> 0 \<le> y \<and> y < height g
             \<and> burnState (cells g ! nat y ! nat x) = UNBURNED
             \<and> getFlammability (terrain (cells g ! nat y ! nat x)) > 0
          then g\<lparr>cells := (cells g)[nat y := (cells g ! nat y)[nat x :=
                 (cells g ! nat y ! nat x)\<lparr>burnState := BURNING, burnIntensity := 1,
                                            burnDuration := 0\<rparr>]]\<rparr>
          else g)"
proof (cases "0 \<le> x \<and> x < width g \<and> 0 \<le> y \<and> y < height g")
  case True
  then have y: "nat y < length (cells g)" using wf_gridD(2) [OF assms] by auto
  then have x: "nat x < length (cells g ! nat y)" using wf_gridD(3) [OF assms] True by simp
  show ?thesis using True x y
    by (simp add: igniteCell_def map_id_rows js_index_def Let_def)
next
  case False
  then show ?thesis by (auto simp: igniteCell_def)
qed

text \<open>
  Claim C6. On a grid of \<open>height\<close> rows of \<open>width\<close> cells, with integer coordinates:
  when \<open>(x, y)\<close> is within bounds, the cell there is Unburned and its terrain has a
  flammability above 0, \<open>igniteCell\<close> returns the grid with that one cell Burning at
  intensity 1 and duration 0; in every other case (out of bounds, Burning or Burned,
  Water) it returns the grid as it was. It never raises.
\<close>

theorem igniteCell_spec:
  assumes "wf_grid g"
  shows "igniteCell g x y =
     Inr (if 0 \<le> x \<and> x < width g \<and> 0 \<le> y \<and> y < height g
             \<and> burnState (cells g ! nat y ! nat x) = UNBURNED
             \<and> getFlammability (terrain (cells g ! nat y ! nat x)) > 0
          then g\<lparr>cells := (cells g)[nat y := (cells g ! nat y)[nat x :=
                 (cells g ! nat y ! nat x)\<lparr>burnState := BURNING, burnIntensity := 1,
                                            burnDuration := 0\<rparr>]]\<rparr>
          else g)"
  using assms by (rule igniteCell_on_wf)

theorem igniteCell_spec_witness:
  "wf_grid demoGrid
   \<and> igniteCell demoGrid 1 0 =
       Inr (demoGrid\<lparr>cells := [[mkCell FOREST BURNING 0 0 1 0, mkCell GRASS BURNING 1 0 1 0]]\<rparr>)
   \<and> igniteCell demoGrid 0 0 = Inr demoGrid
   \<and> igniteCell demoGrid 2 0 = Inr demoGrid"
  using igniteCell_spec [OF wf_demoGrid, of 1 0] igniteCell_spec [OF wf_demoGrid, of 0 0]
    igniteCell_spec [OF wf_demoGrid, of 2 0] wf_demoGrid
  by (simp add: demoGrid_def mkCell_def)

section \<open>Burn states only move forward\<close>

lemma wf_grid_cells_update:
  assumes wf: "wf_grid g" and len: "length cs = length (cells g)"
    and rows: "\<forall>y < length (cells g). length (cs ! y) = nat (width g)"
  shows "wf_grid (g\<lparr>cells := cs\<rparr>)"
proof -
  have "int (length row) = width g" if "row \<in> set cs" for row
  proof -
    from that obtain y where y: "y < length cs" "row = cs ! y" by (auto simp: in_set_conv_nth)
    then have "length row = nat (width g)" using rows len by simp
    moreover have "cells g ! y \<in> set (cells g)" using y len by simp
    then have "int (length (cells g ! y)) = width g"
      using wf unfolding wf_grid_def list_all_iff by blast
    then have "0 \<le> width g" by linarith
    ultimately show ?thesis by simp
  qed
  then show ?thesis using wf len by (simp add: wf_grid_def list_all_iff)
qed

lemma perCell_update:
  "perCell g p y x r = Inr (c', r') \<Longrightarrow>
     \<exists>ns. updateCellBurnState (cells g ! y ! x) ns p r = Inr (c', r')"
  by (auto simp: perCell_def split: sum.splits)

lemma stepSimulation_wf_cells:
  assumes wf: "wf_grid g"
  shows "\<exists>g' r'. stepSimulation g p r = Inr (g', r') \<and> wf_grid g'
     \<and> width g' = width g \<and> height g' = height g
     \<and> (\<forall>y < nat (height g). \<forall>x < nat (width g).
           \<exists>ns rr r''. updateCellBurnState (cells g ! y ! x) ns p rr = Inr (cells g' ! y ! x, r''))"
proof -
  obtain cs where cs: "stepSimulation g p r = Inr (g\<lparr>cells := cs\<rparr>, rngRows g p (nat (height g)) r)"
    and len: "length cs = nat (height g)"
    and pts: "\<forall>y < nat (height g). length (cs ! y) = nat (width g)
          \<and> (\<forall>x < nat (width g).
                \<exists>r''. perCell g p y x (rngBefore g p r y x) = Inr (cs ! y ! x, r''))"
    using stepSimulation_wf [OF wf, of p r] by blast
  have h: "length (cells g) = nat (height g)" using wf_gridD(1) [OF wf] .
  have wf': "wf_grid (g\<lparr>cells := cs\<rparr>)"
    using wf_grid_cells_update [OF wf, of cs] len pts h by simp
  have "\<forall>y < nat (height g). \<forall>x < nat (width g).
           \<exists>ns rr r''. updateCellBurnState (cells g ! y ! x) ns p rr
              = Inr (cells (g\<lparr>cells := cs\<rparr>) ! y ! x, r'')"
    using pts perCell_update by fastforce
  then show ?thesis
    using cs wf'
    by (intro exI [of _ "g\<lparr>cells := cs\<rparr>"] exI [of _ "rngRows g p (nat (height g)) r"]) simp
qed

lemma nth_nth_list_update:
  "y' < length cs \<Longrightarrow>
     cs[y := (cs ! y)[x := c]] ! y' ! x' =
       (if y' = y \<and> x' = x \<and> x < length (cs ! y) then c else cs ! y' ! x')"
  by (cases "y' = y"; cases "x < length (cs ! y)")
     (auto simp: nth_list_update list_update_beyond)

lemma cellForward_refl: "cellForward c c" by (simp add: cellForward_def)

lemma cellForward_trans: "cellForward a b \<Longrightarrow> cellForward b c \<Longrightarrow> cellForward a c"
  by (cases "burnState a"; cases "burnState b") (auto simp: cellForward_def burnRank_def)

lemma updateCellBurnState_cellForward:
  "updateCellBurnState c ns p r = Inr (c', r') \<Longrightarrow> cellForward c c'"
  using updateCellBurnState_forward [of c ns p r c' r'] by (simp add: cellForward_def)

lemma stepSimulation_forward:
  assumes wf: "wf_grid g"
  shows "\<exists>g' r'. stepSimulation g p r = Inr (g', r') \<and> wf_grid g'
     \<and> width g' = width g \<and> height g' = height g
     \<and> (\<forall>y < nat (height g). \<forall>x < nat (width g).
           cellForward (cells g ! y ! x) (cells g' ! y ! x))"
proof -
  obtain g' r' where st: "stepSimulation g p r = Inr (g', r')" "wf_grid g'"
      "width g' = width g" "height g' = height g"
    and pts: "\<forall>y < nat (height g). \<forall>x < nat (width g).
           \<exists>ns rr r''. updateCellBurnState (cells g ! y ! x) ns p rr = Inr (cells g' ! y ! x, r'')"
    using stepSimulation_wf_cells [OF wf, of p r] by blast
  have "\<forall>y < nat (height g). \<forall>x < nat (width g). cellForward (cells g ! y ! x) (cells g' ! y ! x)"
    using pts updateCellBurnState_cellForward by blast
  then show ?thesis using st by blast
qed

lemma igniteCell_forward:
  assumes wf: "wf_grid g"
  shows "\<exists>g'. igniteCell g x y = Inr g' \<and> wf_grid g'
     \<and> width g' = width g \<and> height g' = height g
     \<and> (\<forall>y' < nat (height g). \<forall>x' < nat (width g).
           cellForward (cells g ! y' ! x') (cells g' ! y' ! x'))"
proof (cases "0 \<le> x \<and> x < width g \<and> 0 \<le> y \<and> y < height g
             \<and> burnState (cells g ! nat y ! nat x) = UNBURNED
             \<and> getFlammability (terrain (cells g ! nat y ! nat x)) > 0")
  case False
  then have "igniteCell g x y = Inr g" using igniteCell_on_wf [OF wf, of x y] by auto
  then show ?thesis using wf by (simp add: cellForward_refl)
next
  case True
  let ?c = "cells g ! nat y ! nat x"
  let ?cs = "(cells g)[nat y := (cells g ! nat y)[nat x :=
                 ?c\<lparr>burnState := BURNING, burnIntensity := 1, burnDuration := 0\<rparr>]]"
  have ig: "igniteCell g x y = Inr (g\<lparr>cells := ?cs\<rparr>)"
    using igniteCell_on_wf [OF wf, of x y] True by simp
  have h: "length (cells g) = nat (height g)" using wf_gridD(1) [OF wf] .
  have rows: "\<forall>y' < length (cells g). length (?cs ! y') = nat (width g)"
  proof (intro allI impI)
    fix y' assume "y' < length (cells g)"
    then show "length (?cs ! y') = nat (width g)"
      using wf_gridD(3) [OF wf, of y'] by (cases "y' = nat y") simp_all
  qed
  have wf': "wf_grid (g\<lparr>cells := ?cs\<rparr>)"
    using wf_grid_cells_update [OF wf, of ?cs] rows by simp
  have "cellForward (cells g ! y' ! x') (?cs ! y' ! x')"
    if "y' < nat (height g)" "x' < nat (width g)" for y' x'
  proof (cases "y' = nat y \<and> x' = nat x")
    case True
    then have "?cs ! y' ! x' = ?c\<lparr>burnState := BURNING, burnIntensity := 1, burnDuration := 0\<rparr>"
      using that h wf_gridD(3) [OF wf, of y'] by simp
    then show ?thesis using True \<open>0 \<le> x \<and> _\<close> by (simp add: cellForward_def burnRank_def)
  next
    case False
    then have "?cs ! y' ! x' = cells g ! y' ! x'"
      using that h by (auto simp: nth_nth_list_update)
    then show ?thesis by (simp add: cellForward_refl)
  qed
  then show ?thesis using ig wf' by simp
qed

lemma runOps_forward:
  assumes "wf_grid g"
  shows "\<exists>g' r'. runOps g ops r = Inr (g', r') \<and> wf_grid g'
     \<and> width g' = width g \<and> height g' = height g
     \<and> (\<forall>y < nat (height g). \<forall>x < nat (width g).
           cellForward (cells g ! y ! x) (cells g' ! y ! x))"
  using assms
proof (induction ops arbitrary: g r)
  case Nil
  then show ?case by (simp add: cellForward_refl)
next
  case (Cons op ops)
  have "\<exists>g1 r1. (runOps g (op # ops) r = runOps g1 ops r1) \<and> wf_grid g1
     \<and> width g1 = width g \<and> height g1 = height g
     \<and> (\<forall>y < nat (height g). \<forall>x < nat (width g).
           cellForward (cells g ! y ! x) (cells g1 ! y ! x))"
  proof (cases op)
    case (Tick p)
    obtain g1 r1 where "stepSimulation g p r = Inr (g1, r1)" "wf_grid g1"
      "width g1 = width g" "height g1 = height g"
      "\<forall>y < nat (height g). \<forall>x < nat (width g). cellForward (cells g ! y ! x) (cells g1 ! y ! x)"
      using stepSimulation_forward [OF Cons.prems, of p r] by blast
    then show ?thesis unfolding Tick by (intro exI [of _ g1] exI [of _ r1]) simp
  next
    case (Ignite x y)
    obtain g1 where "igniteCell g x y = Inr g1" "wf_grid g1"
      "width g1 = width g" "height g1 = height g"
      "\<forall>y < nat (height g). \<forall>x < nat (width g). cellForward (cells g ! y ! x) (cells g1 ! y ! x)"
      using igniteCell_forward [OF Cons.prems, of x y] by blast
    then show ?thesis unfolding Ignite by (intro exI [of _ g1] exI [of _ r]) simp
  qed
  then obtain g1 r1 where one: "runOps g (op # ops) r = runOps g1 ops r1" "wf_grid g1"
      "width g1 = width g" "height g1 = height g"
      "\<forall>y < nat (height g). \<forall>x < nat (width g). cellForward (cells g ! y ! x) (cells g1 ! y ! x)"
    by blast
  obtain g' r' where rest: "runOps g1 ops r1 = Inr (g', r')" "wf_grid g'"
      "width g' = width g1" "height g' = height g1"
      "\<forall>y < nat (height g1). \<forall>x < nat (width g1). cellForward (cells g1 ! y ! x) (cells g' ! y ! x)"
    using Cons.IH [OF one(2), of r1] by blast
  have "cellForward (cells g ! y ! x) (cells g' ! y ! x)"
    if "y < nat (height g)" "x < nat (width g)" for y x
    using one(3,4,5) rest(5) that
      cellForward_trans [of "cells g ! y ! x" "cells g1 ! y ! x" "cells g' ! y ! x"] by simp
  then show ?case using one(1,3,4) rest(1-4) by simp
qed

lemma wf_ashGrid: "wf_grid ashGrid" by (simp add: wf_grid_def ashGrid_def)

lemma less_2_iff: "(\<forall>x<2. P x) \<longleftrightarrow> P 0 \<and> P (Suc 0)"
  by (auto simp: less_Suc_eq numeral_2_eq_2)

text \<open>
  Claim C5. Start from any grid of \<open>height\<close> rows of \<open>width\<close> cells and apply any
  sequence of ticks (each with its own parameters) and ignitions, with any random
  draws. The run returns a grid; in it every cell's burn state is where it was or
  further along Unburned, Burning, Burned (\<open>burnRank\<close> 0, 1, 2), and a cell that was
  Burned is the very same cell. Since this holds from every grid, it holds between
  any two moments of a run.
\<close>

theorem burnState_forward_only:
  assumes "wf_grid g"
  shows "\<exists>g' r'. runOps g ops r = Inr (g', r')
     \<and> (\<forall>y < nat (height g). \<forall>x < nat (width g).
           burnRank (burnState (cells g ! y ! x)) \<le> burnRank (burnState (cells g' ! y ! x))
           \<and> (burnState (cells g ! y ! x) = BURNED \<longrightarrow> cells g' ! y ! x = cells g ! y ! x))"
  using runOps_forward [OF assms, of ops r] unfolding cellForward_def by blast

theorem burnState_forward_only_witness:
  "wf_grid ashGrid
   \<and> (\<exists>g' r'. runOps ashGrid [Ignite 0 0, Ignite 1 0, Tick demoParams] (\<lambda>_. 0) = Inr (g', r')
        \<and> cells g' ! 0 ! 0 = mkCell FOREST BURNED 0 0 0 18
        \<and> burnRank (burnState (cells ashGrid ! 0 ! 1)) \<le> burnRank (burnState (cells g' ! 0 ! 1)))"
proof -
  obtain g' r' where run: "runOps ashGrid [Ignite 0 0, Ignite 1 0, Tick demoParams] (\<lambda>_. 0) = Inr (g', r')"
    and fw: "\<forall>y < nat (height ashGrid). \<forall>x < nat (width ashGrid).
           burnRank (burnState (cells ashGrid ! y ! x)) \<le> burnRank (burnState (cells g' ! y ! x))
           \<and> (burnState (cells ashGrid ! y ! x) = BURNED \<longrightarrow> cells g' ! y ! x = cells ashGrid ! y ! x)"
    using burnState_forward_only [OF wf_ashGrid, of "[Ignite 0 0, Ignite 1 0, Tick demoParams]" "\<lambda>_. 0"]
    by blast
  have "cells g' ! 0 ! 0 = mkCell FOREST BURNED 0 0 0 18
      \<and> burnRank (burnState (cells ashGrid ! 0 ! 1)) \<le> burnRank (burnState (cells g' ! 0 ! 1))"
    using fw by (simp add: ashGrid_def less_2_iff mkCell_def)
  then show ?thesis using run wf_ashGrid by blast
qed

section \<open>What a tick leaves alone\<close>

lemma frameInv_stepCell:
  assumes inv: "frameInv g s" and st: "stepCell g p y x s = Inr s'"
  shows "frameInv g s'"
proof -
  obtain ng rr where s: "s = (ng, rr)" by (cases s)
  from st obtain ns c' r' where y: "y < length (cells g)" and x: "x < length (cells g ! y)"
    and up: "updateCellBurnState (cells g ! y ! x) ns p rr = Inr (c', r')"
    and s': "s' = (ng[y := (ng ! y)[x := c']], r')"
    unfolding stepCell_def s js_index_def
    by (auto split: if_splits sum.splits prod.splits)
  have fr: "sameFrame (cells g ! y ! x) c'" using updateCellBurnState_sameFrame [OF up] .
  have len: "length ng = length (cells g)"
    and rows: "\<And>y'. y' < length (cells g) \<Longrightarrow> length (ng ! y') = length (cells g ! y')"
    and pts: "\<And>y' x'. y' < length (cells g) \<Longrightarrow> x' < length (cells g ! y')
                 \<Longrightarrow> sameFrame (cells g ! y' ! x') (ng ! y' ! x')"
    using inv unfolding frameInv_def s by auto
  have rows': "length (ng[y := (ng ! y)[x := c']] ! y') = length (cells g ! y')"
    if "y' < length (cells g)" for y'
    using that rows [of y'] len by (cases "y' = y") simp_all
  have pts': "sameFrame (cells g ! y' ! x') (ng[y := (ng ! y)[x := c']] ! y' ! x')"
    if "y' < length (cells g)" "x' < length (cells g ! y')" for y' x'
    using that pts [of y' x'] fr len by (auto simp: nth_nth_list_update)
  show ?thesis unfolding frameInv_def s' using len rows' pts' by simp
qed

lemma frameInv_init: "frameInv g (cells g, r)"
  by (simp add: frameInv_def sameFrame_refl)

lemma stepSimulation_sameFrame:
  assumes "stepSimulation g p r = Inr (g', r')"
  shows "width g' = width g \<and> height g' = height g \<and> bounds g' = bounds g
     \<and> cellSize g' = cellSize g \<and> length (cells g') = length (cells g)
     \<and> (\<forall>y < length (cells g). length (cells g' ! y) = length (cells g ! y)
          \<and> (\<forall>x < length (cells g ! y). sameFrame (cells g ! y ! x) (cells g' ! y ! x)))"
proof -
  from assms obtain cs where
    run: "foldE (\<lambda>y. foldE (\<lambda>x. stepCell g p y x) [0..<nat (width g)])
             [0..<nat (height g)] (cells g, r) = Inr (cs, r')"
    and g': "g' = g\<lparr>cells := cs\<rparr>"
    unfolding stepSimulation_def by (auto simp: map_id_rows split: sum.splits)
  have row: "frameInv g t'"
    if "frameInv g t" "foldE (\<lambda>x. stepCell g p y x) [0..<nat (width g)] t = Inr t'" for y t t'
    using foldE_preserves [of "frameInv g" t "[0..<nat (width g)]" "\<lambda>x. stepCell g p y x" t']
      that frameInv_stepCell by blast
  have "frameInv g (cs, r')"
    using foldE_preserves [of "frameInv g" "(cells g, r)" "[0..<nat (height g)]"
        "\<lambda>y. foldE (\<lambda>x. stepCell g p y x) [0..<nat (width g)]" "(cs, r')"]
      frameInv_init row run by blast
  then show ?thesis unfolding frameInv_def g' by simp
qed

lemma upt_0_2: "[0..<2] = [0, Suc 0]" by (simp add: upt_rec)

lemma spread_demo:
  "calculateSpreadProbability (mkCell FOREST BURNING 0 0 1 0) (mkCell GRASS UNBURNED 1 0 0 0)
     demoParams 1 = 0.23328"
  by (simp add: calculateSpreadProbability_def mkCell_def demoParams_def Let_def)

lemma perCell_demo_0:
  "perCell demoGrid p 0 0 r = Inr (mkCell FOREST BURNING 0 0 0.95 1, r)"
  by (simp add: perCell_def demoGrid_def getNeighbors_def directions_def js_index_def
      updateCellBurnState_def mkCell_def Let_def)

lemma perCell_demo_1:
  "perCell demoGrid demoParams 0 (Suc 0) (\<lambda>_. 0) = Inr (mkCell GRASS BURNING 1 0 0.5 0, \<lambda>_. 0)"
  using ignite_from_west
  by (simp add: perCell_def demoGrid_def getNeighbors_def directions_def js_index_def)

lemma stepSimulation_demoGrid:
  "stepSimulation demoGrid demoParams (\<lambda>_. 0) =
     Inr (demoGrid\<lparr>cells := [[mkCell FOREST BURNING 0 0 0.95 1, mkCell GRASS BURNING 1 0 0.5 0]]\<rparr>,
          \<lambda>_. 0)"
proof -
  have h: "nat (height demoGrid) = 1" and w: "nat (width demoGrid) = 2"
    and hw: "(0::nat) < nat (height demoGrid)" "(0::nat) < nat (width demoGrid)"
      "(1::nat) < nat (width demoGrid)"
    by (simp_all add: demoGrid_def)
  have c: "cells demoGrid = [[mkCell FOREST BURNING 0 0 1 0, mkCell GRASS UNBURNED 1 0 0 0]]"
    by (simp add: demoGrid_def)
  show ?thesis
    unfolding stepSimulation_def Let_def h w
    using stepCell_perCell [OF wf_demoGrid hw(1) hw(2), of demoParams]
      stepCell_perCell [OF wf_demoGrid hw(1) hw(3), of demoParams]
    by (simp add: upt_0_2 map_id_rows perCell_demo_0 perCell_demo_1 c)
qed

text \<open>
  Claim C10. On a grid of \<open>height\<close> rows of \<open>width\<close> cells the tick returns a grid.
  Whenever it returns a grid, on any input, that grid has the same \<open>width\<close>,
  \<open>height\<close>, \<open>bounds\<close> and \<open>cellSize\<close>, the same number of rows and of cells in each
  row, and every cell has the terrain, x, y, windX, windY, humidity and temperature it
  had: only burnState, burnIntensity and burnDuration can differ.
\<close>

theorem stepSimulation_frame:
  "(wf_grid g \<longrightarrow> (\<exists>g' r'. stepSimulation g p r = Inr (g', r')))
   \<and> (stepSimulation g p r = Inr (g', r') \<longrightarrow>
        width g' = width g \<and> height g' = height g \<and> bounds g' = bounds g
        \<and> cellSize g' = cellSize g \<and> length (cells g') = length (cells g)
        \<and> (\<forall>y < length (cells g). length (cells g' ! y) = length (cells g ! y)
             \<and> (\<forall>x < length (cells g ! y).
                   terrain (cells g' ! y ! x) = terrain (cells g ! y ! x)
                 \<and> cellX (cells g' ! y ! x) = cellX (cells g ! y ! x)
                 \<and> cellY (cells g' ! y ! x) = cellY (cells g ! y ! x)
                 \<and> windX (cells g' ! y ! x) = windX (cells g ! y ! x)
                 \<and> windY (cells g' ! y ! x) = windY (cells g ! y ! x)
                 \<and> humidity (cells g' ! y ! x) = humidity (cells g ! y ! x)
                 \<and> temperature (cells g' ! y ! x) = temperature (cells g ! y ! x))))"
proof (rule conjI; rule impI)
  assume "wf_grid g"
  then show "\<exists>g' r'. stepSimulation g p r = Inr (g', r')"
    using stepSimulation_wf [of g p r] by blast
next
  assume "stepSimulation g p r = Inr (g', r')"
  from stepSimulation_sameFrame [OF this]
  show "width g' = width g \<and> height g' = height g \<and> bounds g' = bounds g
        \<and> cellSize g' = cellSize g \<and> length (cells g') = length (cells g)
        \<and> (\<forall>y < length (cells g). length (cells g' ! y) = length (cells g ! y)
             \<and> (\<forall>x < length (cells g ! y).
                   terrain (cells g' ! y ! x) = terrain (cells g ! y ! x)
                 \<and> cellX (cells g' ! y ! x) = cellX (cells g ! y ! x)
                 \<and> cellY (cells g' ! y ! x) = cellY (cells g ! y ! x)
                 \<and> windX (cells g' ! y ! x) = windX (cells g ! y ! x)
                 \<and> windY (cells g' ! y ! x) = windY (cells g ! y ! x)
                 \<and> humidity (cells g' ! y ! x) = humidity (cells g ! y ! x)
                 \<and> temperature (cells g' ! y ! x) = temperature (cells g ! y ! x)))"
    unfolding sameFrame_def by simp
qed

theorem stepSimulation_frame_witness:
  "wf_grid demoGrid
   \<and> stepSimulation demoGrid demoParams (\<lambda>_. 0) =
       Inr (demoGrid\<lparr>cells := [[mkCell FOREST BURNING 0 0 0.95 1, mkCell GRASS BURNING 1 0 0.5 0]]\<rparr>,
            \<lambda>_. 0)
   \<and> terrain (mkCell GRASS BURNING 1 0 0.5 0) = terrain (cells demoGrid ! 0 ! 1)
   \<and> cellX (mkCell GRASS BURNING 1 0 0.5 0) = cellX (cells demoGrid ! 0 ! 1)"
  using stepSimulation_frame [of demoGrid demoParams "\<lambda>_. 0"
      "demoGrid\<lparr>cells := [[mkCell FOREST BURNING 0 0 0.95 1, mkCell GRASS BURNING 1 0 0.5 0]]\<rparr>"
      "\<lambda>_. 0"]
    wf_demoGrid stepSimulation_demoGrid
  by (simp add: demoGrid_def mkCell_def)

section \<open>Water\<close>

lemma nonneg_Math_random:
  "nonneg r \<Longrightarrow> Math_random r = (u, r') \<Longrightarrow> 0 \<le> u \<and> nonneg r'"
  by (auto simp: nonneg_def Math_random_def)

lemma spreadFromNeighbors_nonneg:
  "spreadFromNeighbors c ns p r = Inr (c', r') \<Longrightarrow> nonneg r \<Longrightarrow> nonneg r'"
proof (induction c ns p r rule: spreadFromNeighbors.induct)
  case (1 cell params r)
  then show ?case by simp
next
  case (2 cell ns params r)
  then show ?case by simp
next
  case (3 cell neighbor ns params r)
  obtain u r1 where r1: "Math_random r = (u, r1)" by (cases "Math_random r")
  obtain v r2 where r2: "Math_random r1 = (v, r2)" by (cases "Math_random r1")
  have n1: "nonneg r1" using nonneg_Math_random [OF "3.prems"(2) r1] by simp
  have n2: "nonneg r2" using nonneg_Math_random [OF n1 r2] by simp
  show ?case
    using "3.prems" "3.IH" r1 r2 n1 n2
    by (auto simp: Let_def split: if_splits)
qed

lemma updateCellBurnState_nonneg:
  "updateCellBurnState c ns p r = Inr (c', r') \<Longrightarrow> nonneg r \<Longrightarrow> nonneg r'"
  using updateCellBurnState_cases [of c ns p r c' r'] spreadFromNeighbors_nonneg [of c ns p r c' r']
  by (auto simp: updateCellBurnState_UNBURNED)

lemma perCell_nonneg:
  "perCell g p y x r = Inr (c', r') \<Longrightarrow> nonneg r \<Longrightarrow> nonneg r'"
  using updateCellBurnState_nonneg by (auto simp: perCell_def split: sum.splits)

lemma drawsLeft_nonneg: "nonneg r \<Longrightarrow> nonneg (drawsLeft (perCell g p y x r) r)"
  using perCell_nonneg [of g p y x r]
  by (cases "perCell g p y x r") (auto simp: drawsLeft_def)

lemma rngRow_nonneg: "nonneg r \<Longrightarrow> nonneg (rngRow g p y x r)"
  by (induction x) (simp_all add: drawsLeft_nonneg)

lemma rngRows_nonneg: "nonneg r \<Longrightarrow> nonneg (rngRows g p y r)"
  by (induction y) (simp_all add: rngRow_nonneg)

lemma rngBefore_nonneg: "nonneg r \<Longrightarrow> nonneg (rngBefore g p r y x)"
  by (simp add: rngBefore_def rngRow_nonneg rngRows_nonneg)

lemma calculateSpreadProbability_WATER:
  "terrain c = WATER \<Longrightarrow> calculateSpreadProbability n c p w = 0"
  by (simp add: calculateSpreadProbability_def Let_def)

lemma spreadFromNeighbors_WATER:
  "terrain c = WATER \<Longrightarrow> nonneg r \<Longrightarrow> spreadFromNeighbors c ns p r = Inr (c', r') \<Longrightarrow> c' = c"
proof (induction c ns p r rule: spreadFromNeighbors.induct)
  case (1 cell params r)
  then show ?case by simp
next
  case (2 cell ns params r)
  then show ?case by simp
next
  case (3 cell neighbor ns params r)
  obtain u r1 where r1: "Math_random r = (u, r1)" by (cases "Math_random r")
  have n1: "0 \<le> u" "nonneg r1" using nonneg_Math_random [OF "3.prems"(2) r1] by simp_all
  show ?case
    using "3.prems" "3.IH" r1 n1
    by (auto simp: Let_def calculateSpreadProbability_WATER split: if_splits)
qed

lemma perCell_WATER:
  assumes "terrain (cells g ! y ! x) = WATER" and "burnState (cells g ! y ! x) \<noteq> BURNING"
    and "nonneg r" and "perCell g p y x r = Inr (c', r')"
  shows "c' = cells g ! y ! x"
proof -
  from assms(4) obtain ns where up: "updateCellBurnState (cells g ! y ! x) ns p r = Inr (c', r')"
    using perCell_update by blast
  show ?thesis
  proof (cases "burnState (cells g ! y ! x)")
    case UNBURNED
    then show ?thesis
      using up spreadFromNeighbors_WATER [OF assms(1,3), of ns p c' r']
      by (simp add: updateCellBurnState_UNBURNED)
  next
    case BURNING
    then show ?thesis using assms(2) by simp
  next
    case BURNED
    then show ?thesis using up by (simp add: updateCellBurnState_BURNED)
  qed
qed

lemma allWater_cell:
  assumes wf: "wf_grid g" and water: "allWater g"
    and y: "y < nat (height g)" and x: "x < nat (width g)"
  shows "terrain (cells g ! y ! x) = WATER"
proof -
  have h: "length (cells g) = nat (height g)" using wf_gridD(1) [OF wf] .
  have row: "cells g ! y \<in> set (cells g)" using y h by simp
  have "length (cells g ! y) = nat (width g)" using wf_gridD(3) [OF wf, of y] y h by simp
  then have "cells g ! y ! x \<in> set (cells g ! y)" using x by simp
  then show ?thesis using water row unfolding allWater_def list_all_iff by blast
qed

lemma all_water_still_tick:
  assumes wf: "wf_grid g" and water: "allWater g" and nn: "nonneg r"
    and still: "\<forall>y < nat (height g). \<forall>x < nat (width g). burnState (cells g ! y ! x) \<noteq> BURNING"
  shows "\<exists>r'. stepSimulation g p r = Inr (g, r') \<and> nonneg r'"
proof -
  obtain cs where cs: "stepSimulation g p r = Inr (g\<lparr>cells := cs\<rparr>, rngRows g p (nat (height g)) r)"
    and len: "length cs = nat (height g)"
    and pts: "\<forall>y < nat (height g). length (cs ! y) = nat (width g)
          \<and> (\<forall>x < nat (width g).
                \<exists>r''. perCell g p y x (rngBefore g p r y x) = Inr (cs ! y ! x, r''))"
    using stepSimulation_wf [OF wf, of p r] by blast
  have h: "length (cells g) = nat (height g)" using wf_gridD(1) [OF wf] .
  have "cs = cells g"
  proof (rule nth_equalityI)
    show "length cs = length (cells g)" using len h by simp
  next
    fix y assume y: "y < length cs"
    show "cs ! y = cells g ! y"
    proof (rule nth_equalityI)
      show "length (cs ! y) = length (cells g ! y)"
        using pts y len wf_gridD(3) [OF wf, of y] h by simp
    next
      fix x assume "x < length (cs ! y)"
      then have x: "x < nat (width g)" using pts y len by simp
      obtain r'' where "perCell g p y x (rngBefore g p r y x) = Inr (cs ! y ! x, r'')"
        using pts y x len by auto
      then show "cs ! y ! x = cells g ! y ! x"
        using perCell_WATER [OF allWater_cell [OF wf water] _ rngBefore_nonneg [OF nn]]
          still x y len by auto
    qed
  qed
  then have "stepSimulation g p r = Inr (g, rngRows g p (nat (height g)) r)"
    using cs by simp
  then show ?thesis using rngRows_nonneg [OF nn] by blast
qed

lemma all_water_still_ignite:
  assumes wf: "wf_grid g" and water: "allWater g"
  shows "igniteCell g x y = Inr g"
proof (cases "0 \<le> x \<and> x < width g \<and> 0 \<le> y \<and> y < height g")
  case True
  then have "terrain (cells g ! nat y ! nat x) = WATER"
    using allWater_cell [OF wf water, of "nat y" "nat x"] by auto
  then show ?thesis using igniteCell_on_wf [OF wf, of x y] by simp
next
  case False
  then show ?thesis using igniteCell_on_wf [OF wf, of x y] by auto
qed

lemma allUnburned_noneBurning: "allUnburned g \<Longrightarrow> noneBurning g"
  unfolding allUnburned_def noneBurning_def list_all_iff by auto

lemma processSelectedArea_allUnburned: "allUnburned (processSelectedArea b sp tiles)"
  by (simp add: allUnburned_def processSelectedArea_def processAreaToGrid_def Let_def
      list_all_iff)

lemma processSelectedArea_wf:
  assumes "0 \<le> width (processSelectedArea b sp tiles)"
    and "0 \<le> height (processSelectedArea b sp tiles)"
  shows "wf_grid (processSelectedArea b sp tiles)"
  using assms
  by (simp add: wf_grid_def processSelectedArea_def processAreaToGrid_def Let_def list_all_iff)

lemma handleResetSimulation_allUnburned: "allUnburned (handleResetSimulation g)"
  by (simp add: allUnburned_def handleResetSimulation_def list_all_iff)

lemma handleResetSimulation_wf: "wf_grid g \<Longrightarrow> wf_grid (handleResetSimulation g)"
  by (simp add: wf_grid_def handleResetSimulation_def list_all_iff)

lemma handleResetSimulation_allWater: "allWater g \<Longrightarrow> allWater (handleResetSimulation g)"
  by (simp add: allWater_def handleResetSimulation_def list_all_iff)

lemma noneBurning_cell:
  assumes wf: "wf_grid g" and nb: "noneBurning g"
    and y: "y < nat (height g)" and x: "x < nat (width g)"
  shows "burnState (cells g ! y ! x) \<noteq> BURNING"
proof -
  have h: "length (cells g) = nat (height g)" using wf_gridD(1) [OF wf] .
  have row: "cells g ! y \<in> set (cells g)" using y h by simp
  have "length (cells g ! y) = nat (width g)" using wf_gridD(3) [OF wf, of y] y h by simp
  then have "cells g ! y ! x \<in> set (cells g ! y)" using x by simp
  then show ?thesis using nb row unfolding noneBurning_def list_all_iff by blast
qed

lemma all_water_quiet_run:
  assumes wf: "wf_grid g" and water: "allWater g" and nn: "nonneg r"
    and nb: "noneBurning g"
  shows "\<exists>r'. runOps g ops r = Inr (g, r') \<and> nonneg r'"
  using nn
proof (induction ops arbitrary: r)
  case Nil
  then show ?case by simp
next
  case (Cons op ops)
  have still: "\<forall>y < nat (height g). \<forall>x < nat (width g). burnState (cells g ! y ! x) \<noteq> BURNING"
    using noneBurning_cell [OF wf nb] by blast
  show ?case
  proof (cases op)
    case (Tick p)
    obtain r1 where "stepSimulation g p r = Inr (g, r1)" "nonneg r1"
      using all_water_still_tick [OF wf water Cons.prems still, of p] by blast
    then show ?thesis using Cons.IH [of r1] by (simp add: Tick)
  next
    case (Ignite x y)
    then show ?thesis
      using all_water_still_ignite [OF wf water, of x y] Cons.IH [OF Cons.prems] by simp
  qed
qed

lemma all_water_events:
  assumes "wf_grid g" and "allWater g" and "allUnburned g" and "nonneg r"
  shows "\<exists>g1 r1. runEvents g es r = Inr (g1, r1)
           \<and> wf_grid g1 \<and> allWater g1 \<and> allUnburned g1 \<and> nonneg r1"
  using assms
proof (induction es arbitrary: g r)
  case Nil
  then show ?case by simp
next
  case (Cons e es)
  show ?case
  proof (cases e)
    case (Op op)
    obtain r' where r': "runOps g [op] r = Inr (g, r')" "nonneg r'"
      using all_water_quiet_run [OF Cons.prems(1,2,4) allUnburned_noneBurning [OF Cons.prems(3)]]
      by blast
    then have "runEvents g (e # es) r = runEvents g es r'" by (simp add: Op)
    then show ?thesis using Cons.IH [OF Cons.prems(1,2,3) r'(2)] by simp
  next
    case Reset
    then have "runEvents g (e # es) r = runEvents (handleResetSimulation g) es r" by simp
    then show ?thesis
      using Cons.IH [OF handleResetSimulation_wf [OF Cons.prems(1)]
          handleResetSimulation_allWater [OF Cons.prems(2)]
          handleResetSimulation_allUnburned Cons.prems(4)]
      by simp
  qed
qed

lemma wf_lakeGrid: "wf_grid lakeGrid" by (simp add: wf_grid_def lakeGrid_def)

text \<open>
  Claim C7. On a grid whose cells are all Water and of which none is Burning, a tick
  returns the very same grid, whatever the parameters and the random draws (each at
  least 0, as \<^verbatim>\<open>Math.random()\<close> gives them): nothing ignites, since the spread
  probability towards Water is 0. Every grid of Water that the program can hold is
  such a grid: it starts all Unburned, and every sequence of ticks, ignitions and
  resets runs to the end and leaves it all Water with no cell Burning (an ignition
  refuses Water), so that the next tick, with any parameters, changes no cell.
\<close>

theorem all_water_tick:
  "(wf_grid g \<and> allWater g \<and> noneBurning g \<and> (\<forall>i. 0 \<le> r i) \<longrightarrow>
      (\<exists>r'. stepSimulation g p r = Inr (g, r') \<and> (\<forall>i. 0 \<le> r' i)))
   \<and> (wf_grid g0 \<and> allWater g0 \<and> allUnburned g0 \<and> (\<forall>i. 0 \<le> r0 i) \<longrightarrow>
      (\<exists>g1 r1. runEvents g0 es r0 = Inr (g1, r1)
         \<and> wf_grid g1 \<and> allWater g1 \<and> noneBurning g1 \<and> (\<forall>i. 0 \<le> r1 i)
         \<and> (\<exists>r'. stepSimulation g1 p1 r1 = Inr (g1, r'))))"
proof (rule conjI; rule impI)
  assume a: "wf_grid g \<and> allWater g \<and> noneBurning g \<and> (\<forall>i. 0 \<le> r i)"
  then have still: "\<forall>y < nat (height g). \<forall>x < nat (width g). burnState (cells g ! y ! x) \<noteq> BURNING"
    using noneBurning_cell [of g] by blast
  have "nonneg r" using a by (simp add: nonneg_def)
  then show "\<exists>r'. stepSimulation g p r = Inr (g, r') \<and> (\<forall>i. 0 \<le> r' i)"
    using all_water_still_tick [of g r p] a still by (auto simp: nonneg_def)
next
  assume a: "wf_grid g0 \<and> allWater g0 \<and> allUnburned g0 \<and> (\<forall>i. 0 \<le> r0 i)"
  have "nonneg r0" using a by (simp add: nonneg_def)
  then obtain g1 r1 where run: "runEvents g0 es r0 = Inr (g1, r1)"
    and inv: "wf_grid g1" "allWater g1" "allUnburned g1" "nonneg r1"
    using all_water_events [of g0 r0 es] a by blast
  have nb: "noneBurning g1" using allUnburned_noneBurning [OF inv(3)] .
  have "\<exists>r'. stepSimulation g1 p1 r1 = Inr (g1, r')"
    using all_water_still_tick [OF inv(1,2,4), of p1] noneBurning_cell [OF inv(1) nb] by blast
  then show "\<exists>g1 r1. runEvents g0 es r0 = Inr (g1, r1)
         \<and> wf_grid g1 \<and> allWater g1 \<and> noneBurning g1 \<and> (\<forall>i. 0 \<le> r1 i)
         \<and> (\<exists>r'. stepSimulation g1 p1 r1 = Inr (g1, r'))"
    using run inv nb by (auto simp: nonneg_def)
qed

theorem all_water_tick_witness:
  "wf_grid lakeGrid \<and> allWater lakeGrid \<and> allUnburned lakeGrid \<and> noneBurning lakeGrid
   \<and> (\<exists>r'. stepSimulation lakeGrid demoParams (\<lambda>_. 0) = Inr (lakeGrid, r'))
   \<and> (\<exists>g1 r1. runEvents lakeGrid [Op (Ignite 0 0), Op (Tick demoParams), Reset, Op (Ignite 1 0)]
                 (\<lambda>_. 0) = Inr (g1, r1)
         \<and> allWater g1 \<and> noneBurning g1
         \<and> (\<exists>r2. stepSimulation g1 demoParams r1 = Inr (g1, r2)))"
proof -
  have a: "allWater lakeGrid" "allUnburned lakeGrid"
    by (simp_all add: allWater_def allUnburned_def lakeGrid_def mkCell_def)
  have nb: "noneBurning lakeGrid" using allUnburned_noneBurning [OF a(2)] .
  have d: "\<forall>i. (0::real) \<le> (\<lambda>_. 0) i" by simp
  have 1: "\<exists>r'. stepSimulation lakeGrid demoParams (\<lambda>_. 0) = Inr (lakeGrid, r')"
    using all_water_tick [of lakeGrid "\<lambda>_. 0" demoParams] wf_lakeGrid a nb d by blast
  have 2: "\<exists>g1 r1. runEvents lakeGrid [Op (Ignite 0 0), Op (Tick demoParams), Reset, Op (Ignite 1 0)]
                 (\<lambda>_. 0) = Inr (g1, r1)
         \<and> allWater g1 \<and> noneBurning g1
         \<and> (\<exists>r2. stepSimulation g1 demoParams r1 = Inr (g1, r2))"
    using all_water_tick [of _ _ _ lakeGrid "\<lambda>_. 0"
        "[Op (Ignite 0 0), Op (Tick demoParams), Reset, Op (Ignite 1 0)]" demoParams]
      wf_lakeGrid a d by blast
  show ?thesis using wf_lakeGrid a nb 1 2 by blast
qed

section \<open>Wind\<close>

lemma full_turns_aligned:
  assumes "- 720 < 360 * real_of_int m" and "360 * real_of_int m < 360"
  shows "m = - 1 \<or> m = 0"
proof -
  have "real_of_int (- 2) < real_of_int m" using assms(1) by simp
  moreover have "real_of_int m < real_of_int 1" using assms(2) by simp
  ultimately have "- 2 < m" "m < 1" by (simp_all only: of_int_less_iff)
  then show ?thesis by linarith
qed

lemma full_turns_reversed:
  assumes "- 720 < 180 + 360 * real_of_int m" and "180 + 360 * real_of_int m < 360"
  shows "m = - 2 \<or> m = - 1 \<or> m = 0"
proof -
  have "real_of_int (- 3) < real_of_int m" using assms(1) by simp
  moreover have "real_of_int m < real_of_int 1" using assms(2) by simp
  ultimately have "- 3 < m" "m < 1" by (simp_all only: of_int_less_iff)
  then show ?thesis by linarith
qed

lemma js_rem_360:
  "\<exists>m::int. js_rem a 360 = a - 360 * of_int m"
  by (auto simp: js_rem_def)

lemma js_rem_360_bounds: "- 360 < js_rem a 360 \<and> js_rem a 360 < 360"
proof (cases "0 \<le> a / 360")
  case True
  have f: "of_int \<lfloor>a / 360\<rfloor> \<le> a / 360" "a / 360 < of_int \<lfloor>a / 360\<rfloor> + 1" by linarith+
  have "js_rem a 360 = a - 360 * of_int \<lfloor>a / 360\<rfloor>"
    using True by (simp add: js_rem_def js_trunc_def)
  then show ?thesis using f by (intro conjI; linarith)
next
  case False
  have f: "a / 360 \<le> of_int \<lceil>a / 360\<rceil>" "of_int \<lceil>a / 360\<rceil> < a / 360 + 1" by linarith+
  have "js_rem a 360 = a - 360 * of_int \<lceil>a / 360\<rceil>"
    using False by (simp add: js_rem_def js_trunc_def)
  then show ?thesis using f by (intro conjI; linarith)
qed

lemma js_rem_360_nonneg:
  assumes "0 \<le> a"
  shows "0 \<le> js_rem a 360 \<and> js_rem a 360 < 360"
proof -
  have q: "0 \<le> a / 360" using assms by simp
  have f: "of_int \<lfloor>a / 360\<rfloor> \<le> a / 360" "a / 360 < of_int \<lfloor>a / 360\<rfloor> + 1" by linarith+
  have "js_rem a 360 = a - 360 * of_int \<lfloor>a / 360\<rfloor>"
    using q by (simp add: js_rem_def js_trunc_def)
  then show ?thesis using f by (intro conjI; linarith)
qed

lemma Math_atan2_range: "- pi < Math_atan2 y x \<and> Math_atan2 y x \<le> pi"
proof -
  have b: "- (pi / 2) < arctan (y / x)" "arctan (y / x) < pi / 2"
    using arctan_lbound arctan_ubound by auto
  have p: "0 < pi" by simp
  consider "0 < x" | "x < 0" "0 \<le> y" | "x < 0" "y < 0"
    | "x = 0" "0 < y" | "x = 0" "y < 0" | "x = 0" "y = 0" by linarith
  then show ?thesis
  proof cases
    case 1
    then show ?thesis using b p by (simp add: Math_atan2_def)
  next
    case 2
    then have "y / x \<le> 0" by (simp add: divide_nonneg_neg)
    then have "arctan (y / x) \<le> 0" using arctan_le_zero_iff by blast
    then show ?thesis using 2 b p by (simp add: Math_atan2_def)
  next
    case 3
    then have "0 < y / x" by (simp add: divide_neg_neg)
    then have "0 < arctan (y / x)" using zero_less_arctan_iff by blast
    then show ?thesis using 3 b p by (simp add: Math_atan2_def)
  next
    case 4
    then have "Math_atan2 y x = pi / 2" by (simp add: Math_atan2_def)
    then show ?thesis using p by linarith
  next
    case 5
    then have "Math_atan2 y x = - (pi / 2)" by (simp add: Math_atan2_def)
    then show ?thesis using p by linarith
  next
    case 6
    then have "Math_atan2 y x = 0" by (simp add: Math_atan2_def)
    then show ?thesis using p by linarith
  qed
qed

lemma fire_angle_range:
  "- 180 < Math_atan2 y x * 180 / pi \<and> Math_atan2 y x * 180 / pi \<le> 180"
proof -
  have p: "0 < pi" by simp
  have "- pi < Math_atan2 y x" "Math_atan2 y x \<le> pi" using Math_atan2_range by auto
  then show ?thesis using p by (simp add: field_simps)
qed

text \<open>
  When the wind direction is the fire direction up to full turns, the two normalised
  angles differ by 0 or 360 degrees and the wind effect is 1. When it is the opposite
  direction they differ by 180 or 540 degrees, the effective angle is 180 or -180
  degrees, and the wind effect is 0.3 - 0.7 = -0.4.
\<close>

lemma calculateWindEffect_aligned:
  assumes "d = Math_atan2 (ty - fy) (tx - fx) * 180 / pi + 360 * of_int k"
  shows "calculateWindEffect fx fy tx ty d = 1"
proof -
  define fd where "fd = Math_atan2 (ty - fy) (tx - fx) * 180 / pi"
  define nF where "nF = js_rem (fd + 360) 360"
  define nW where "nW = js_rem (d + 360) 360"
  have fr: "- 180 < fd" "fd \<le> 180" using fire_angle_range [of "ty - fy" "tx - fx"] by (auto simp: fd_def)
  have nFb: "0 \<le> nF" "nF < 360" using js_rem_360_nonneg [of "fd + 360"] fr by (auto simp: nF_def)
  have nWb: "- 360 < nW" "nW < 360" using js_rem_360_bounds [of "d + 360"] by (auto simp: nW_def)
  obtain a :: int where a: "nF = fd + 360 - 360 * of_int a" using js_rem_360 [of "fd + 360"] by (auto simp: nF_def)
  obtain b :: int where b: "nW = d + 360 - 360 * of_int b" using js_rem_360 [of "d + 360"] by (auto simp: nW_def)
  have diff: "nW - nF = 360 * of_int (k - b + a)"
    using a b assms by (simp add: fd_def algebra_simps)
  have "- 720 < nW - nF" "nW - nF < 360" using nFb nWb by linarith+
  then have "k - b + a = - 1 \<or> k - b + a = 0"
    unfolding diff by (rule full_turns_aligned)
  then have "nW - nF = - 360 \<or> nW - nF = 0" using diff by auto
  then have "min \<bar>nW - nF\<bar> (360 - \<bar>nW - nF\<bar>) = 0" by auto
  then show ?thesis
    by (simp add: calculateWindEffect_def Let_def fd_def [symmetric] nF_def [symmetric] nW_def [symmetric])
qed

lemma calculateWindEffect_reversed:
  assumes "d = Math_atan2 (ty - fy) (tx - fx) * 180 / pi + 360 * of_int k + 180"
  shows "calculateWindEffect fx fy tx ty d = - 0.4"
proof -
  define fd where "fd = Math_atan2 (ty - fy) (tx - fx) * 180 / pi"
  define nF where "nF = js_rem (fd + 360) 360"
  define nW where "nW = js_rem (d + 360) 360"
  have fr: "- 180 < fd" "fd \<le> 180" using fire_angle_range [of "ty - fy" "tx - fx"] by (auto simp: fd_def)
  have nFb: "0 \<le> nF" "nF < 360" using js_rem_360_nonneg [of "fd + 360"] fr by (auto simp: nF_def)
  have nWb: "- 360 < nW" "nW < 360" using js_rem_360_bounds [of "d + 360"] by (auto simp: nW_def)
  obtain a :: int where a: "nF = fd + 360 - 360 * of_int a" using js_rem_360 [of "fd + 360"] by (auto simp: nF_def)
  obtain b :: int where b: "nW = d + 360 - 360 * of_int b" using js_rem_360 [of "d + 360"] by (auto simp: nW_def)
  have diff: "nW - nF = 180 + 360 * of_int (k - b + a)"
    using a b assms by (simp add: fd_def algebra_simps)
  have "- 720 < nW - nF" "nW - nF < 360" using nFb nWb by linarith+
  then have "k - b + a = - 2 \<or> k - b + a = - 1 \<or> k - b + a = 0"
    unfolding diff by (rule full_turns_reversed)
  then have "nW - nF = - 540 \<or> nW - nF = - 180 \<or> nW - nF = 180" using diff by auto
  then have "min \<bar>nW - nF\<bar> (360 - \<bar>nW - nF\<bar>) = - 180 \<or> min \<bar>nW - nF\<bar> (360 - \<bar>nW - nF\<bar>) = 180"
    by auto
  then have "cos (min \<bar>nW - nF\<bar> (360 - \<bar>nW - nF\<bar>) * pi / 180) = - 1" by auto
  then show ?thesis
    by (simp add: calculateWindEffect_def Let_def fd_def [symmetric] nF_def [symmetric] nW_def [symmetric])
qed

text \<open>The loop of the \<^verbatim>\<open>UNBURNED\<close> case compares its draw with \<open>spreadProb\<close> times 0.1.\<close>

lemma spreadFromNeighbors_spreadProb:
  "spreadFromNeighbors cell (Some neighbor # ns) params r =
     (if burnState neighbor = BURNING then
        (if r 0 < spreadProb neighbor cell params * 0.1
         then Inr (ignited cell (r 1 * 0.5 + 0.5), \<lambda>i. r (Suc (Suc i)))
         else spreadFromNeighbors cell ns params (\<lambda>i. r (Suc i)))
      else spreadFromNeighbors cell ns params r)"
  by (simp add: spreadProb_def Let_def Math_random_def ignited_def)

lemma calculateSpreadProbability_factor:
  "calculateSpreadProbability n c p w = min 1 (windFreeFactor n c p * (0.8 + 0.4 * w))"
  by (simp add: calculateSpreadProbability_def windFreeFactor_def Let_def mult_ac)

lemma getFlammability_nonneg: "0 \<le> getFlammability t"
  by (cases t) simp_all

lemma temperature_factor_pos: "(0::real) < 0.5 + 0.5 * max 0 v"
  by (rule add_pos_nonneg) simp_all

lemma windFreeFactor_nonneg:
  assumes "0 \<le> burnIntensity n"
  shows "0 \<le> windFreeFactor n c p"
proof -
  have i: "0 \<le> 0.5 + 0.5 * burnIntensity n" using assms by simp
  have t: "0 \<le> 0.5 + 0.5 * max 0 ((SimulationParams.temperature p - 20) / 50)"
    using temperature_factor_pos [of "(SimulationParams.temperature p - 20) / 50"] by simp
  show ?thesis
    unfolding windFreeFactor_def
    by (intro mult_nonneg_nonneg getFlammability_nonneg i t) simp_all
qed

lemma windFreeFactor_pos:
  assumes "0 \<le> burnIntensity n" and "0 < getFlammability (terrain c)"
    and "SimulationParams.humidity p < 100" and "rainLikelihood p < 100"
  shows "0 < windFreeFactor n c p"
proof -
  have i: "0 < 0.5 + 0.5 * burnIntensity n" using assms(1) by (intro add_pos_nonneg) simp_all
  have h: "0 < max 0 ((100 - SimulationParams.humidity p) / 100)" using assms(3) by simp
  have r: "0 < max 0 ((100 - rainLikelihood p) / 100)" using assms(4) by simp
  show ?thesis
    unfolding windFreeFactor_def
    by (intro mult_pos_pos assms(2) temperature_factor_pos i h r)
qed

lemma windFreeFactor_windDirection:
  "windFreeFactor n c (p\<lparr>windDirection := d\<rparr>) = windFreeFactor n c p"
  by (simp add: windFreeFactor_def)

lemma spreadProb_downwind:
  assumes "windDirection p = fireDirection n c + 360 * of_int k"
  shows "spreadProb n c p = min 1 (windFreeFactor n c p * 1.2)"
  using calculateWindEffect_aligned [of "windDirection p" "of_int (cellY c)" "of_int (cellY n)"
      "of_int (cellX c)" "of_int (cellX n)" k] assms
  by (simp add: spreadProb_def calculateSpreadProbability_factor fireDirection_def)

lemma spreadProb_upwind:
  assumes "windDirection p = fireDirection n c + 360 * of_int k + 180"
  shows "spreadProb n c p = min 1 (windFreeFactor n c p * 0.64)"
  using calculateWindEffect_reversed [of "windDirection p" "of_int (cellY c)" "of_int (cellY n)"
      "of_int (cellX c)" "of_int (cellX n)" k] assms
  by (simp add: spreadProb_def calculateSpreadProbability_factor fireDirection_def)

lemma windFreeFactor_zero:
  assumes "getFlammability (terrain c) \<le> 0 \<or> 100 \<le> SimulationParams.humidity p
           \<or> 100 \<le> rainLikelihood p"
  shows "windFreeFactor n c p = 0"
proof -
  have f: "getFlammability (terrain c) \<le> 0 \<Longrightarrow> getFlammability (terrain c) = 0"
    using getFlammability_nonneg [of "terrain c"] by simp
  have h: "100 \<le> SimulationParams.humidity p \<Longrightarrow>
           max 0 ((100 - SimulationParams.humidity p) / 100) = 0" by simp
  have r: "100 \<le> rainLikelihood p \<Longrightarrow> max 0 ((100 - rainLikelihood p) / 100) = 0" by simp
  show ?thesis using assms f h r unfolding windFreeFactor_def by auto
qed

lemma fireDirection_east: "fireDirection (mkCell t b 0 0 i d) (mkCell t' b' 1 0 i' d') = 0"
  by (simp add: fireDirection_def mkCell_def Math_atan2_def)

text \<open>
  Claim C8, as the program has it. Let the wind direction be the direction from the
  burning neighbour to the cell, up to full turns, and let the source's intensity be
  at least 0. Then the spread probability is at least the one with the wind turned by
  180 degrees, everything else equal. It is strictly higher when the target's
  flammability is above 0, humidity and rain likelihood are below 100 and the
  probability against the wind is below the cap 1. (The wind effect is 1 with the
  wind and -0.4 against it, so the wind factor is 1.2 against 0.64.) In every other
  case the two are equal: both 0, as towards Water, or both capped at 1.
\<close>

theorem downwind_spread_higher:
  assumes down: "windDirection p = fireDirection n c + 360 * of_int k"
    and rev: "p' = p\<lparr>windDirection := windDirection p + 180\<rparr>"
    and int: "0 \<le> burnIntensity n"
  shows "spreadProb n c p' \<le> spreadProb n c p
     \<and> (getFlammability (terrain c) > 0 \<and> SimulationParams.humidity p < 100
          \<and> rainLikelihood p < 100 \<and> spreadProb n c p' < 1
        \<longrightarrow> spreadProb n c p' < spreadProb n c p)
     \<and> (\<not> (getFlammability (terrain c) > 0 \<and> SimulationParams.humidity p < 100
             \<and> rainLikelihood p < 100 \<and> spreadProb n c p' < 1)
        \<longrightarrow> spreadProb n c p' = spreadProb n c p)"
proof -
  define B where "B = windFreeFactor n c p"
  have d: "spreadProb n c p = min 1 (B * 1.2)"
    using spreadProb_downwind [OF down] by (simp add: B_def)
  have "windDirection p' = fireDirection n c + 360 * of_int k + 180"
    using down rev by simp
  then have u: "spreadProb n c p' = min 1 (B * 0.64)"
    using spreadProb_upwind [of p' n c k] rev by (simp add: B_def windFreeFactor_windDirection)
  have B0: "0 \<le> B" using windFreeFactor_nonneg [OF int] by (simp add: B_def)
  have le: "spreadProb n c p' \<le> spreadProb n c p"
    unfolding d u using B0 by (simp add: min_def)
  have lt: "spreadProb n c p' < spreadProb n c p"
    if "getFlammability (terrain c) > 0" "SimulationParams.humidity p < 100"
      "rainLikelihood p < 100" "spreadProb n c p' < 1"
  proof -
    have "0 < B" using windFreeFactor_pos [OF int that(1-3)] by (simp add: B_def)
    then show ?thesis using that(4) unfolding d u by (simp add: min_def split: if_splits)
  qed
  have eq: "spreadProb n c p' = spreadProb n c p"
    if "\<not> (getFlammability (terrain c) > 0 \<and> SimulationParams.humidity p < 100
             \<and> rainLikelihood p < 100 \<and> spreadProb n c p' < 1)"
  proof (cases "spreadProb n c p' < 1")
    case True
    then have "getFlammability (terrain c) \<le> 0 \<or> 100 \<le> SimulationParams.humidity p
           \<or> 100 \<le> rainLikelihood p" using that by auto
    then have "B = 0" using windFreeFactor_zero [of c p n] by (simp add: B_def)
    then show ?thesis unfolding d u by simp
  next
    case False
    then have "1 \<le> B * 0.64" unfolding u by (simp add: min_def split: if_splits)
    then have "1 \<le> B * 1.2" using B0 by simp
    then show ?thesis using \<open>1 \<le> B * 0.64\<close> unfolding d u by simp
  qed
  show ?thesis using le lt eq by blast
qed

theorem downwind_spread_higher_witness:
  "windDirection demoParams = fireDirection (mkCell FOREST BURNING 0 0 1 0) (mkCell GRASS UNBURNED 1 0 0 0) + 360 * of_int 0
   \<and> 0 \<le> burnIntensity (mkCell FOREST BURNING 0 0 1 0)
   \<and> getFlammability (terrain (mkCell GRASS UNBURNED 1 0 0 0)) > 0
   \<and> SimulationParams.humidity demoParams < 100 \<and> rainLikelihood demoParams < 100
   \<and> spreadProb (mkCell FOREST BURNING 0 0 1 0) (mkCell GRASS UNBURNED 1 0 0 0)
        (demoParams\<lparr>windDirection := windDirection demoParams + 180\<rparr>) = 0.124416
   \<and> spreadProb (mkCell FOREST BURNING 0 0 1 0) (mkCell GRASS UNBURNED 1 0 0 0) demoParams = 0.23328
   \<and> spreadProb (mkCell FOREST BURNING 0 0 1 0) (mkCell GRASS UNBURNED 1 0 0 0)
        (demoParams\<lparr>windDirection := windDirection demoParams + 180\<rparr>)
      < spreadProb (mkCell FOREST BURNING 0 0 1 0) (mkCell GRASS UNBURNED 1 0 0 0) demoParams
   \<and> windDirection demoParams = fireDirection (mkCell FOREST BURNING 0 0 1 0) (mkCell WATER UNBURNED 1 0 0 0) + 360 * of_int 0
   \<and> \<not> getFlammability (terrain (mkCell WATER UNBURNED 1 0 0 0)) > 0
   \<and> spreadProb (mkCell FOREST BURNING 0 0 1 0) (mkCell WATER UNBURNED 1 0 0 0)
        (demoParams\<lparr>windDirection := windDirection demoParams + 180\<rparr>)
      = spreadProb (mkCell FOREST BURNING 0 0 1 0) (mkCell WATER UNBURNED 1 0 0 0) demoParams"
proof -
  let ?n = "mkCell FOREST BURNING 0 0 1 0" and ?c = "mkCell GRASS UNBURNED 1 0 0 0"
  let ?w = "mkCell WATER UNBURNED 1 0 0 0"
  let ?p' = "demoParams\<lparr>windDirection := windDirection demoParams + 180\<rparr>"
  have down: "windDirection demoParams = fireDirection ?n ?c + 360 * of_int 0"
    by (simp add: fireDirection_east) (simp add: demoParams_def)
  have downw: "windDirection demoParams = fireDirection ?n ?w + 360 * of_int 0"
    by (simp add: fireDirection_east) (simp add: demoParams_def)
  have int: "0 \<le> burnIntensity ?n" by (simp add: mkCell_def)
  have B: "windFreeFactor ?n ?c demoParams = 0.1944"
    by (simp add: windFreeFactor_def mkCell_def demoParams_def)
  have pd: "spreadProb ?n ?c demoParams = 0.23328"
    using spreadProb_downwind [OF down] by (simp add: B)
  have "windDirection ?p' = fireDirection ?n ?c + 360 * of_int 0 + 180"
    using down by simp
  then have pu: "spreadProb ?n ?c ?p' = 0.124416"
    using spreadProb_upwind [of ?p' ?n ?c 0] by (simp add: B windFreeFactor_windDirection)
  have side: "getFlammability (terrain ?c) > 0" "SimulationParams.humidity demoParams < 100"
    "rainLikelihood demoParams < 100"
    by (simp_all add: mkCell_def demoParams_def)
  have water: "\<not> getFlammability (terrain ?w) > 0" by (simp add: mkCell_def)
  have eq: "spreadProb ?n ?w ?p' = spreadProb ?n ?w demoParams"
    using downwind_spread_higher [OF downw refl int] water by blast
  show ?thesis
    using downwind_spread_higher [OF down refl int] down downw int side pu pd water eq
    by simp
qed

text \<open>
  Towards a Water cell the probability is 0 with the wind and 0 against it: not
  strictly higher.
\<close>

theorem downwind_spread_counterexample:
  "windDirection demoParams = fireDirection (mkCell FOREST BURNING 0 0 1 0) (mkCell WATER UNBURNED 1 0 0 0)
   \<and> spreadProb (mkCell FOREST BURNING 0 0 1 0) (mkCell WATER UNBURNED 1 0 0 0) demoParams = 0
   \<and> spreadProb (mkCell FOREST BURNING 0 0 1 0) (mkCell WATER UNBURNED 1 0 0 0)
        (demoParams\<lparr>windDirection := 180\<rparr>) = 0
   \<and> \<not> spreadProb (mkCell FOREST BURNING 0 0 1 0) (mkCell WATER UNBURNED 1 0 0 0)
          (demoParams\<lparr>windDirection := 180\<rparr>)
        < spreadProb (mkCell FOREST BURNING 0 0 1 0) (mkCell WATER UNBURNED 1 0 0 0) demoParams"
  by (simp add: fireDirection_east spreadProb_def calculateSpreadProbability_factor
      windFreeFactor_def) (simp add: mkCell_def demoParams_def)

section \<open>Tile coordinates over the reals\<close>

text \<open>
  With exact real arithmetic \<open>latLonToTile\<close> undoes \<open>tileToLatLon\<close>: the value under
  each \<^verbatim>\<open>Math.floor\<close> is the tile index itself. The program computes the same
  formulas with doubles, where that value carries the rounding errors of
  \<^verbatim>\<open>Math.sinh\<close>, \<^verbatim>\<open>Math.atan\<close>, \<^verbatim>\<open>Math.tan\<close> and \<^verbatim>\<open>Math.asinh\<close> and may fall just
  below the index; this lemma says nothing about that, the last section does.
\<close>

lemma tile_roundtrip_reals:
  "latLonToTile (fst (tileToLatLon x y zoom)) (snd (tileToLatLon x y zoom)) zoom = (x, y)"
proof -
  define n :: real where "n = 2 ^ zoom"
  have n: "0 < n" by (simp add: n_def)
  define t where "t = pi * (1 - 2 * of_int y / n)"
  have lon: "(of_int x / n * 360 - 180 + 180) / 360 * n = of_int x" using n by simp
  have "arctan (sinh t) * 180 / pi * pi / 180 = arctan (sinh t)" by simp
  then have "arsinh (tan (arctan (sinh t) * 180 / pi * pi / 180)) = t"
    by (simp add: tan_arctan arsinh_sinh_real)
  then have lat: "(1 - arsinh (tan (arctan (sinh t) * 180 / pi * pi / 180)) / pi) / 2 * n = of_int y"
    using n by (simp add: t_def field_simps)
  show ?thesis
    unfolding latLonToTile_def tileToLatLon_def Let_def fst_conv snd_conv
      n_def [symmetric] t_def [symmetric] lon lat
    by simp
qed

section \<open>Tile coordinates with rounding\<close>











lemma arsinh_lipschitz: "\<bar>arsinh a - arsinh b\<bar> \<le> \<bar>a - b\<bar>" for a b :: real
proof -
  have *: "\<bar>arsinh y - arsinh x\<bar> \<le> \<bar>y - x\<bar>" if "x < y" for x y :: real
  proof -
    have "\<exists>z>x. z < y \<and> arsinh y - arsinh x = (y - x) * (1 / sqrt (z\<^sup>2 + 1))"
      by (rule MVT2 [OF that]) (rule arsinh_real_has_field_derivative)
    then obtain z where z: "arsinh y - arsinh x = (y - x) * (1 / sqrt (z\<^sup>2 + 1))" by blast
    have s: "1 \<le> sqrt (z\<^sup>2 + 1)" by simp
    then have "0 < sqrt (z\<^sup>2 + 1)" by linarith
    then have "0 \<le> 1 / sqrt (z\<^sup>2 + 1)" "1 / sqrt (z\<^sup>2 + 1) \<le> 1"
      using s by (simp_all add: field_simps)
    then have "\<bar>(y - x) * (1 / sqrt (z\<^sup>2 + 1))\<bar> \<le> \<bar>y - x\<bar> * 1"
      unfolding abs_mult by (intro mult_left_mono) simp_all
    then show ?thesis using z by simp
  qed
  consider "a < b" | "b < a" | "a = b" by linarith
  then show ?thesis
  proof cases
    case 1 then show ?thesis using * [of a b] by (simp add: abs_minus_commute)
  next
    case 2 then show ?thesis using * [of b a] by simp
  next
    case 3 then show ?thesis by simp
  qed
qed

lemma abs_arsinh_le: "\<bar>arsinh (a::real)\<bar> \<le> \<bar>a\<bar>"
  using arsinh_lipschitz [of a 0] by simp













lemma accurate_exactEngine: "0 \<le> u \<Longrightarrow> accurate u exactEngine"
  by (simp add: accurate_def exactEngine_def rounds_def)






end
